theory Spec2Isabelle
  imports Main "HOL-Library.Sublist"
begin

section \<open>The linting orchestrator \<open>scripts/lint-all.js\<close>\<close>

text \<open>
  The orchestrator reads the command line, lists the workspace directory, keeps the
  directories it has a configuration for, runs the configured shell scripts of each
  one with \<open>execSync\<close> and exits with a code that tells whether all of them passed.
  What the file system holds and how a script ends are decided outside the program:
  they are the fields of a \<open>host\<close>, over a world \<open>'w\<close> that a script run may change.
\<close>

subsection \<open>Static configuration: \<open>REPO_CONFIGS\<close>\<close>

text \<open>
  One entry of \<open>REPO_CONFIGS\<close>. The optional flags of the object literal
  (\<open>hasReact\<close>, \<open>hasFlask\<close>, \<open>hasNodeAuth\<close>, \<open>hasArduino\<close>) are \<open>False\<close> where
  the literal leaves them out; the orchestrator never reads them.
\<close>

record repo_config =
  rtype :: string
  languages :: "string list"
  hasReact :: bool
  hasFlask :: bool
  hasNodeAuth :: bool
  hasArduino :: bool
  scripts :: "string list"

text \<open>
  The object literal, as an association list in the order of its keys
  (\<open>Object.keys\<close> keeps insertion order); \<open>REPO_CONFIGS[item]\<close> is \<open>map_of\<close>.
\<close>

definition REPO_CONFIGS :: "(string \<times> repo_config) list" where
  "REPO_CONFIGS =
    [(''Pyrrha-Dashboard'',
        \<lparr>rtype = ''multi-stack'', languages = [''javascript'', ''python''],
         hasReact = True, hasFlask = True, hasNodeAuth = True, hasArduino = False,
         scripts = [''lint-dashboard.sh'']\<rparr>),
     (''Pyrrha-MQTT-Client'',
        \<lparr>rtype = ''nodejs'', languages = [''javascript''],
         hasReact = False, hasFlask = False, hasNodeAuth = False, hasArduino = False,
         scripts = [''lint-nodejs.sh'']\<rparr>),
     (''Pyrrha-Rules-Decision'',
        \<lparr>rtype = ''python'', languages = [''python''],
         hasReact = False, hasFlask = False, hasNodeAuth = False, hasArduino = False,
         scripts = [''lint-python.sh'']\<rparr>),
     (''Pyrrha-WebSocket-Server'',
        \<lparr>rtype = ''nodejs'', languages = [''javascript''],
         hasReact = False, hasFlask = False, hasNodeAuth = False, hasArduino = False,
         scripts = [''lint-nodejs.sh'']\<rparr>),
     (''Pyrrha-Device-Simulator'',
        \<lparr>rtype = ''nodejs'', languages = [''javascript''],
         hasReact = False, hasFlask = False, hasNodeAuth = False, hasArduino = False,
         scripts = [''lint-nodejs.sh'']\<rparr>),
     (''Pyrrha-Website'',
        \<lparr>rtype = ''react'', languages = [''javascript''],
         hasReact = True, hasFlask = False, hasNodeAuth = False, hasArduino = False,
         scripts = [''lint-nodejs.sh'']\<rparr>),
     (''Pyrrha-Firmware'',
        \<lparr>rtype = ''cpp-arduino'', languages = [''cpp'', ''c''],
         hasReact = False, hasFlask = False, hasNodeAuth = False, hasArduino = True,
         scripts = [''lint-cpp.sh'']\<rparr>),
     (''Pyrrha-Mobile-App'',
        \<lparr>rtype = ''java-android'', languages = [''java''],
         hasReact = False, hasFlask = False, hasNodeAuth = False, hasArduino = False,
         scripts = []\<rparr>),
     (''Pyrrha-Watch-App'',
        \<lparr>rtype = ''web-hybrid'', languages = [''javascript''],
         hasReact = False, hasFlask = False, hasNodeAuth = False, hasArduino = False,
         scripts = [''lint-nodejs.sh'']\<rparr>)]"

text \<open>The objects that \<open>discoverRepos\<close> pushes: \<open>{ name, path, config }\<close>.\<close>

record repo =
  name :: string
  path :: string
  config :: repo_config

subsection \<open>Console output\<close>

text \<open>
  The second argument of \<open>log\<close> selects the colour. The texts are the template
  strings of the source, one constructor per template, holding the values
  interpolated into it.
\<close>

datatype level = Info | Success | Warn | Error | Header

datatype message =
    Banner
  | Mode bool
  | UnknownRepository string
  | ScriptNotFound string
  | Running string string
  | Completed string string
  | Failed string string string
  | Linting string
  | Status bool string
  | NoRepositoriesFound
  | Found nat
  | Bullet string string
  | SummaryHeader
  | Passed nat
  | FailedCount nat
  | FailedRepo string
  | AllPassed
  | Usage "string list"
  | ErrorOutput string

text \<open>
  What can be thrown: a failing \<open>fs\<close> call (with the path it was given), and the
  \<open>TypeError\<close> of calling \<open>split\<close> on \<open>undefined\<close>.
\<close>

datatype js_error = FsError string | TypeError

text \<open>
  A line of output: through \<open>this.log\<close>, directly through \<open>console.log\<close>, or the
  \<open>console.error\<close> of the final \<open>catch\<close>.
\<close>

datatype line = Log level message | Out message | FatalError js_error

subsection \<open>The host: file system, child processes, environment\<close>

text \<open>
  The options object and command of one \<open>execSync\<close> call. The command string is
  \<open>chmod +x "scriptPath" && "scriptPath" args\<close>: it is kept as the script path and
  the argument list it is built from. \<open>inherit\<close> is \<open>stdio: 'inherit'\<close>, otherwise
  \<open>'pipe'\<close>.
\<close>

record invocation =
  scriptPath :: string
  args :: "string list"
  cwd :: string
  env :: "string \<rightharpoonup> string"
  inherit :: bool

text \<open>
  \<open>execSync\<close> returns the captured output when the command exits with 0 and throws
  otherwise (non-zero exit, or the shell could not be started in \<open>cwd\<close>); the
  error carries a message and the output \<open>error.stdout || error.stderr\<close>.
\<close>

datatype exec_result = Returns string | Throws string string

text \<open>
  \<open>readdirSync\<close> and \<open>statSync\<close> throw when they give \<open>None\<close>; \<open>existsSync\<close>
  never throws. \<open>WORKSPACE_ROOT\<close> and \<open>TOOLS_ROOT\<close> are the two constants resolved
  from \<open>__dirname\<close> when the module is loaded.
\<close>

record 'w host =
  readdirSync :: "'w \<Rightarrow> string \<Rightarrow> string list option"
  isDirectory :: "'w \<Rightarrow> string \<Rightarrow> bool option"
  existsSync :: "'w \<Rightarrow> string \<Rightarrow> bool"
  execSync :: "'w \<Rightarrow> invocation \<Rightarrow> exec_result \<times> 'w"
  process_env :: "string \<rightharpoonup> string"
  WORKSPACE_ROOT :: string
  TOOLS_ROOT :: string

text \<open>
  The state threaded through a run: the world, and what the run has printed. Three
  more fields record what the source holds in local variables or hands to the
  operating system, so that theorems can speak about them: \<open>execs\<close> is the sequence of
  \<open>execSync\<close> calls made so far, \<open>reports\<close> holds, for each finished
  \<open>lintRepository\<close> call, the repository name and the final contents of its local
  array \<open>results\<close>, and \<open>summary\<close> is the local array \<open>results\<close> of \<open>run\<close> once
  the summary is printed (\<open>None\<close> before that).
\<close>

record 'w state =
  world :: 'w
  console :: "line list"
  execs :: "invocation list"
  reports :: "(string \<times> (string \<times> bool) list) list"
  summary :: "(string \<times> bool) list option"

definition initial :: "'w \<Rightarrow> 'w state" where
  "initial w = \<lparr>world = w, console = [], execs = [], reports = [], summary = None\<rparr>"

definition log :: "level \<Rightarrow> message \<Rightarrow> 'w state \<Rightarrow> 'w state" where
  "log lv m st = st\<lparr>console := console st @ [Log lv m]\<rparr>"

definition print :: "message \<Rightarrow> 'w state \<Rightarrow> 'w state" where
  "print m st = st\<lparr>console := console st @ [Out m]\<rparr>"

subsection \<open>Strings and paths\<close>

text \<open>
  \<open>String.prototype.split\<close> with a one-character separator: the pieces between the
  separators, so never an empty list (\<open>''.split(',')\<close> is \<open>['']\<close>).
\<close>

fun split :: "char \<Rightarrow> string \<Rightarrow> string list" where
  "split c [] = [[]]"
| "split c (x # xs) =
     (if x = c then [] # split c xs
      else (case split c xs of
              [] \<Rightarrow> [[x]]
            | p # ps \<Rightarrow> (x # p) # ps))"

text \<open>
  \<open>path.join\<close> of a resolved directory and one plain segment: the separator is
  added unless the directory already ends with it (the root \<open>/\<close>).
\<close>

definition path_join :: "string \<Rightarrow> string \<Rightarrow> string" where
  "path_join dir seg =
     (if dir \<noteq> [] \<and> last dir = CHR ''/'' then dir @ seg else dir @ ''/'' @ seg)"

subsection \<open>The class \<open>PyrrhaLinter\<close>\<close>

record linter =
  workspaceRoot :: string
  toolsRoot :: string
  fixMode :: bool
  verbose :: bool
  targetRepos :: "string list option"

text \<open>
  \<open>parseTargetRepos\<close>: the first argument that starts with \<open>--repo=\<close>, split at
  \<open>=\<close>, its second piece split at commas; \<open>None\<close> (the source's \<open>null\<close>) means all
  repositories. Indexing the pieces at 1 would give \<open>undefined\<close>, and calling
  \<open>split\<close> on it would throw, if there were fewer than two.
\<close>

definition parseTargetRepos :: "string list \<Rightarrow> js_error + string list option" where
  "parseTargetRepos argv =
     (case find (prefix ''--repo='') argv of
        None \<Rightarrow> Inr None
      | Some repoArg \<Rightarrow>
          (case split CHR ''='' repoArg of
             _ # v # _ \<Rightarrow> Inr (Some (split CHR '','' v))
           | _ \<Rightarrow> Inl TypeError))"

definition PyrrhaLinter :: "'w host \<Rightarrow> string list \<Rightarrow> js_error + linter" where
  "PyrrhaLinter h argv =
     (case parseTargetRepos argv of
        Inl e \<Rightarrow> Inl e
      | Inr t \<Rightarrow>
          Inr \<lparr>workspaceRoot = WORKSPACE_ROOT h,
               toolsRoot = TOOLS_ROOT h,
               fixMode = (''--fix'' \<in> set argv),
               verbose = (''--verbose'' \<in> set argv \<or> ''-v'' \<in> set argv),
               targetRepos = t\<rparr>)"

text \<open>
  The loop of \<open>discoverRepos\<close> over the directory listing, with the array \<open>repos\<close>
  built so far. A throwing \<open>statSync\<close> ends it with what was printed until then.
  \<open>REPO_CONFIGS[item]\<close> is only read for names that start with \<open>Pyrrha-\<close>, so the
  properties every object inherits are never hit.
\<close>

fun discoverLoop ::
  "'w host \<Rightarrow> linter \<Rightarrow> string list \<Rightarrow> repo list \<Rightarrow> 'w state \<Rightarrow> (js_error + repo list) \<times> 'w state"
where
  "discoverLoop h l [] repos st = (Inr repos, st)"
| "discoverLoop h l (item # items) repos st =
     (let fullPath = path_join (workspaceRoot l) item in
      case isDirectory h (world st) fullPath of
        None \<Rightarrow> (Inl (FsError fullPath), st)
      | Some isDir \<Rightarrow>
          if isDir \<and> prefix ''Pyrrha-'' item \<and> item \<noteq> ''Pyrrha-Development-Tools'' then
            (case map_of REPO_CONFIGS item of
               Some c \<Rightarrow>
                 discoverLoop h l items
                   (repos @ [\<lparr>name = item, path = fullPath, config = c\<rparr>]) st
             | None \<Rightarrow>
                 discoverLoop h l items repos (log Warn (UnknownRepository item) st))
          else discoverLoop h l items repos st)"

definition discoverRepos ::
  "'w host \<Rightarrow> linter \<Rightarrow> 'w state \<Rightarrow> (js_error + repo list) \<times> 'w state"
where
  "discoverRepos h l st =
     (case readdirSync h (world st) (workspaceRoot l) of
        None \<Rightarrow> (Inl (FsError (workspaceRoot l)), st)
      | Some items \<Rightarrow> discoverLoop h l items [] st)"

text \<open>
  \<open>runScript\<close>. Everything that \<open>execSync\<close> throws is caught by the \<open>try\<close> around it,
  so the function returns a boolean on every path.
\<close>

definition runScript ::
  "'w host \<Rightarrow> linter \<Rightarrow> string \<Rightarrow> string \<Rightarrow> string \<Rightarrow> 'w state \<Rightarrow> bool \<times> 'w state"
where
  "runScript h l scriptName repoPath repoName st =
     (let script = path_join (path_join (toolsRoot l) ''scripts'') scriptName in
      if \<not> existsSync h (world st) script then
        (False, log Error (ScriptNotFound script) st)
      else
        let st1 = log Info (Running scriptName repoName) st;
            call = \<lparr>scriptPath = script,
                    args = (if fixMode l then [''--fix''] else []),
                    cwd = repoPath,
                    env = (process_env h)(''REPO_PATH'' \<mapsto> repoPath,
                                          ''REPO_NAME'' \<mapsto> repoName,
                                          ''TOOLS_ROOT'' \<mapsto> toolsRoot l),
                    inherit = verbose l\<rparr>;
            (result, w) = execSync h (world st1) call;
            st2 = st1\<lparr>world := w, execs := execs st1 @ [call]\<rparr>
        in case result of
             Returns output \<Rightarrow> (True, log Success (Completed scriptName repoName) st2)
           | Throws msg output \<Rightarrow>
               (let st3 = log Error (Failed scriptName repoName msg) st2
                in (False, if verbose l then print (ErrorOutput output) st3 else st3)))"

text \<open>
  The \<open>for\<close> loop of \<open>lintRepository\<close> over \<open>repo.config.scripts\<close>, with the local
  array \<open>results\<close> built so far.
\<close>

fun lintScripts ::
  "'w host \<Rightarrow> linter \<Rightarrow> repo \<Rightarrow> string list \<Rightarrow> (string \<times> bool) list \<Rightarrow> 'w state
     \<Rightarrow> (string \<times> bool) list \<times> 'w state"
where
  "lintScripts h l r [] results st = (results, st)"
| "lintScripts h l r (scriptName # rest) results st =
     (let (success, st1) = runScript h l scriptName (path r) (name r) st
      in lintScripts h l r rest (results @ [(scriptName, success)]) st1)"

definition lintRepository :: "'w host \<Rightarrow> linter \<Rightarrow> repo \<Rightarrow> 'w state \<Rightarrow> bool \<times> 'w state" where
  "lintRepository h l r st =
     (let st1 = log Header (Linting (name r)) st;
          (results, st2) = lintScripts h l r (scripts (config r)) [] st1;
          allPassed = list_all snd results;
          st3 = log (if allPassed then Success else Error) (Status allPassed (name r)) st2
      in (allPassed, st3\<lparr>reports := reports st3 @ [(name r, results)]\<rparr>))"

text \<open>The \<open>for\<close> loop of \<open>run\<close> over \<open>targetedRepos\<close>, with its array \<open>results\<close>.\<close>

fun lintRepos ::
  "'w host \<Rightarrow> linter \<Rightarrow> repo list \<Rightarrow> (string \<times> bool) list \<Rightarrow> 'w state
     \<Rightarrow> (string \<times> bool) list \<times> 'w state"
where
  "lintRepos h l [] results st = (results, st)"
| "lintRepos h l (r # rest) results st =
     (let (success, st1) = lintRepository h l r st
      in lintRepos h l rest (results @ [(name r, success)]) st1)"

text \<open>
  How \<open>run\<close> ends: it returns, it calls \<open>process.exit\<close> with a code, or an exception
  leaves it (the promise is rejected).
\<close>

datatype ending = Returned | Exit nat | Rejected js_error

text \<open>
  The conditional expression of \<open>run\<close> that gives \<open>targetedRepos\<close>: the
  discovered repositories whose name is among the requested ones, or all of them
  when none was requested.
\<close>

definition select :: "linter \<Rightarrow> repo list \<Rightarrow> repo list" where
  "select l repos =
     (case targetRepos l of
        Some names \<Rightarrow> filter (\<lambda>r. name r \<in> set names) repos
      | None \<Rightarrow> repos)"

definition run :: "'w host \<Rightarrow> linter \<Rightarrow> 'w state \<Rightarrow> ending \<times> 'w state" where
  "run h l st =
     (let st1 = log Info (Mode (fixMode l)) (log Header Banner st) in
      case discoverRepos h l st1 of
        (Inl e, st2) \<Rightarrow> (Rejected e, st2)
      | (Inr repos, st2) \<Rightarrow>
          (let targetedRepos = select l repos in
           if length targetedRepos = 0 then
             (Returned, log Warn NoRepositoriesFound st2)
           else
             let st3 = log Info (Found (length targetedRepos)) st2;
                 st4 = foldl (\<lambda>s r. log Info (Bullet (name r) (rtype (config r))) s)
                         st3 targetedRepos;
                 (results, st5) = lintRepos h l targetedRepos [] st4;
                 st6 = log Header SummaryHeader (st5\<lparr>summary := Some results\<rparr>);
                 passed = filter snd results;
                 failed = filter (\<lambda>x. \<not> snd x) results;
                 st7 = log Success (Passed (length passed)) st6
             in if length failed > 0 then
                  (Exit 1,
                   foldl (\<lambda>s f. log Error (FailedRepo (fst f)) s)
                     (log Error (FailedCount (length failed)) st7) failed)
                else (Returned, log Success AllPassed st7)))"

subsection \<open>Main execution\<close>

text \<open>
  The result of the process: its exit code and the final state. A process that
  is left running until nothing remains to do exits with code 0; one that dies of
  an uncaught exception (thrown by the constructor, outside the promise) exits
  with code 1.
\<close>

definition main :: "'w host \<Rightarrow> string list \<Rightarrow> 'w \<Rightarrow> nat \<times> 'w state" where
  "main h argv w =
     (if ''--help'' \<in> set argv \<or> ''-h'' \<in> set argv then
        (0, print (Usage (map fst REPO_CONFIGS)) (initial w))
      else
        case PyrrhaLinter h argv of
          Inl e \<Rightarrow> (1, initial w)
        | Inr linter \<Rightarrow>
            (case run h linter (initial w) of
               (Returned, st) \<Rightarrow> (0, st)
             | (Exit code, st) \<Rightarrow> (code, st)
             | (Rejected e, st) \<Rightarrow> (1, st\<lparr>console := console st @ [FatalError e]\<rparr>)))"

subsection \<open>Sample hosts\<close>

text \<open>
  A workspace \<open>/w\<close> with two configured repositories, the tools themselves, an
  unconfigured \<open>Pyrrha-Sandbox\<close> and a plain file. Every script file exists and
  \<open>lint-python.sh\<close> exits with a non-zero code; the world counts the commands run.
\<close>

definition demo :: "nat host" where
  "demo =
     \<lparr>readdirSync = (\<lambda>w p. if p = ''/w'' then
          Some [''Pyrrha-Rules-Decision'', ''Pyrrha-Development-Tools'', ''Pyrrha-Sandbox'',
                ''README.md'', ''Pyrrha-Mobile-App'']
          else None),
      isDirectory = (\<lambda>w p. Some (p \<noteq> ''/w/README.md'')),
      existsSync = (\<lambda>w p. True),
      execSync = (\<lambda>w c. (if scriptPath c = ''/t/scripts/lint-python.sh''
                            then Throws ''Command failed'' ''E501''
                            else Returns ''ok'', Suc w)),
      process_env = [''HOME'' \<mapsto> ''/root''],
      WORKSPACE_ROOT = ''/w'',
      TOOLS_ROOT = ''/t''\<rparr>"

text \<open>The same workspace where \<open>README.md\<close> is a dangling link: \<open>statSync\<close> throws.\<close>

definition broken :: "nat host" where
  "broken = demo\<lparr>isDirectory := (\<lambda>w p. if p = ''/w/README.md'' then None else Some True)\<rparr>"

text \<open>
  A workspace with two configured repositories only, an empty environment, and
  scripts that all succeed.
\<close>

definition tidy :: "nat host" where
  "tidy =
     \<lparr>readdirSync = (\<lambda>w p. Some [''Pyrrha-Dashboard'', ''Pyrrha-Mobile-App'']),
      isDirectory = (\<lambda>w p. Some True),
      existsSync = (\<lambda>w p. True),
      execSync = (\<lambda>w c. (Returns ''ok'', Suc w)),
      process_env = Map.empty,
      WORKSPACE_ROOT = ''/w'',
      TOOLS_ROOT = ''/t''\<rparr>"

text \<open>
  A workspace with three configured repositories where things go wrong twice:
  the file \<open>lint-nodejs.sh\<close> is missing, \<open>lint-python.sh\<close> exits with a
  non-zero code, and \<open>lint-dashboard.sh\<close> succeeds.
\<close>

definition mishap :: "nat host" where
  "mishap =
     \<lparr>readdirSync = (\<lambda>w p. Some [''Pyrrha-MQTT-Client'', ''Pyrrha-Rules-Decision'',
                                  ''Pyrrha-Dashboard'']),
      isDirectory = (\<lambda>w p. Some True),
      existsSync = (\<lambda>w p. p \<noteq> ''/t/scripts/lint-nodejs.sh''),
      execSync = (\<lambda>w c. (if scriptPath c = ''/t/scripts/lint-python.sh''
                            then Throws ''Command failed'' ''E501''
                            else Returns ''ok'', Suc w)),
      process_env = Map.empty,
      WORKSPACE_ROOT = ''/w'',
      TOOLS_ROOT = ''/t''\<rparr>"

text \<open>
  A linter in check mode for these hosts, a repository whose list holds a script
  that succeeds on \<open>demo\<close> and one that fails there, and one with an empty list.
\<close>

definition checker :: linter where
  "checker = \<lparr>workspaceRoot = ''/w'', toolsRoot = ''/t'', fixMode = False, verbose = False,
              targetRepos = None\<rparr>"

definition mixed :: repo where
  "mixed =
     \<lparr>name = ''Mixed'', path = ''/w/Mixed'',
      config = \<lparr>rtype = ''multi-stack'', languages = [''javascript'', ''python''],
                hasReact = False, hasFlask = False, hasNodeAuth = False, hasArduino = False,
                scripts = [''lint-nodejs.sh'', ''lint-python.sh'']\<rparr>\<rparr>"

definition mobile :: repo where
  "mobile =
     \<lparr>name = ''Pyrrha-Mobile-App'', path = ''/w/Pyrrha-Mobile-App'',
      config = \<lparr>rtype = ''java-android'', languages = [''java''],
                hasReact = False, hasFlask = False, hasNodeAuth = False, hasArduino = False,
                scripts = []\<rparr>\<rparr>"

subsection \<open>Notions used in the statements\<close>

text \<open>
  The shape of an \<open>execSync\<close> call that \<open>runScript\<close> makes for a repository:
  the arguments hold the mode, the working directory is the repository, the
  environment is the one of the process with three variables set.
\<close>

definition issued :: "'w host \<Rightarrow> linter \<Rightarrow> repo \<Rightarrow> invocation \<Rightarrow> bool" where
  "issued h l r c \<longleftrightarrow>
     args c = (if fixMode l then [''--fix''] else []) \<and>
     cwd c = path r \<and>
     env c = (process_env h)(''REPO_PATH'' \<mapsto> path r, ''REPO_NAME'' \<mapsto> name r,
                             ''TOOLS_ROOT'' \<mapsto> toolsRoot l) \<and>
     inherit c = verbose l"

text \<open>
  The workspace can be enumerated: \<open>readdirSync\<close> lists it and \<open>statSync\<close>
  answers for every entry.
\<close>

definition readable :: "'w host \<Rightarrow> 'w \<Rightarrow> bool" where
  "readable h w =
     (case readdirSync h w (WORKSPACE_ROOT h) of
        None \<Rightarrow> False
      | Some items \<Rightarrow>
          list_all (\<lambda>item. isDirectory h w (path_join (WORKSPACE_ROOT h) item) \<noteq> None) items)"

text \<open>Every recorded result of every linted repository is a success.\<close>

definition all_succeeded :: "(string \<times> (string \<times> bool) list) list \<Rightarrow> bool" where
  "all_succeeded rps = list_all (\<lambda>rp. list_all snd (snd rp)) rps"


text \<open>The arguments that the program looks for.\<close>

definition recognized :: "string \<Rightarrow> bool" where
  "recognized a \<longleftrightarrow>
     a = ''--fix'' \<or> a = ''--verbose'' \<or> a = ''-v'' \<or> a = ''--help'' \<or> a = ''-h'' \<or>
     prefix ''--repo='' a"

text \<open>The names of the variables in the environment of a call.\<close>

definition env_names :: "invocation \<Rightarrow> string set" where
  "env_names c = dom (env c)"

text \<open>The names with an entry in \<open>REPO_CONFIGS\<close>.\<close>

definition known :: "string \<Rightarrow> bool" where
  "known n \<longleftrightarrow> n \<in> fst ` set REPO_CONFIGS"

text \<open>The script list that \<open>REPO_CONFIGS\<close> gives for a name, empty for other names.\<close>

definition scripts_of :: "string \<Rightarrow> string list" where
  "scripts_of n = (case map_of REPO_CONFIGS n of Some c \<Rightarrow> scripts c | None \<Rightarrow> [])"


text \<open>The file of a script in the tools directory, as \<open>runScript\<close> joins it.\<close>

definition script_file :: "linter \<Rightarrow> string \<Rightarrow> string" where
  "script_file l s = path_join (path_join (toolsRoot l) ''scripts'') s"

text \<open>The \<open>execSync\<close> call that \<open>runScript\<close> makes for a script of a repository.\<close>

definition call_for :: "'w host \<Rightarrow> linter \<Rightarrow> repo \<Rightarrow> string \<Rightarrow> invocation" where
  "call_for h l r s =
     \<lparr>scriptPath = script_file l s,
      args = (if fixMode l then [''--fix''] else []),
      cwd = path r,
      env = (process_env h)(''REPO_PATH'' \<mapsto> path r, ''REPO_NAME'' \<mapsto> name r,
                            ''TOOLS_ROOT'' \<mapsto> toolsRoot l),
      inherit = verbose l\<rparr>"

text \<open>
  Whether \<open>execSync\<close> returned, and the world that a sequence of commands run one
  after the other leaves.
\<close>

fun succeeded :: "exec_result \<Rightarrow> bool" where
  "succeeded (Returns output) = True"
| "succeeded (Throws msg output) = False"

fun world_after :: "'w host \<Rightarrow> 'w \<Rightarrow> invocation list \<Rightarrow> 'w" where
  "world_after h w [] = w"
| "world_after h w (c # cs) = world_after h (snd (execSync h w c)) cs"

text \<open>
  Running a list of commands one after the other and never stopping: for each
  command in turn the script file is looked for in the world that the commands
  before it have left, and the command is run when the file is there.
  \<open>attempts\<close> gives the commands that are run, and \<open>verdicts\<close> one boolean for
  each command of the list: whether its file was there and \<open>execSync\<close> returned.
\<close>

fun attempts :: "'w host \<Rightarrow> 'w \<Rightarrow> invocation list \<Rightarrow> invocation list" where
  "attempts h w [] = []"
| "attempts h w (c # cs) =
     (if existsSync h w (scriptPath c)
      then c # attempts h (snd (execSync h w c)) cs
      else attempts h w cs)"

fun verdicts :: "'w host \<Rightarrow> 'w \<Rightarrow> invocation list \<Rightarrow> bool list" where
  "verdicts h w [] = []"
| "verdicts h w (c # cs) =
     (if existsSync h w (scriptPath c)
      then succeeded (fst (execSync h w c)) # verdicts h (snd (execSync h w c)) cs
      else False # verdicts h w cs)"

text \<open>
  The commands to go through for a list of repositories: for each repository in
  order, the call of each script of its list, in order.
\<close>

definition scheduled :: "'w host \<Rightarrow> linter \<Rightarrow> repo list \<Rightarrow> invocation list" where
  "scheduled h l repos =
     concat (map (\<lambda>r. map (call_for h l r) (scripts (config r))) repos)"

section \<open>Auxiliary facts\<close>

lemma split_nonempty: "split c s \<noteq> []"
  by (induction s) (auto split: list.splits)

lemma split_two: "c \<in> set s \<Longrightarrow> \<exists>a b rest. split c s = a # b # rest"
proof (induction s)
  case Nil
  then show ?case by simp
next
  case (Cons x xs)
  show ?case
  proof (cases "x = c")
    case True
    obtain p ps where "split c xs = p # ps"
      using split_nonempty [of c xs] by (cases "split c xs") auto
    with True show ?thesis by simp
  next
    case False
    with Cons.prems have "c \<in> set xs" by simp
    then obtain a b rest where "split c xs = a # b # rest"
      using Cons.IH by blast
    with False show ?thesis by simp
  qed
qed

lemma parseTargetRepos_total: "\<exists>t. parseTargetRepos argv = Inr t"
proof (cases "find (prefix ''--repo='') argv")
  case None
  then show ?thesis by (simp add: parseTargetRepos_def)
next
  case (Some repoArg)
  then have "prefix ''--repo='' repoArg"
    by (auto simp: find_Some_iff)
  then have "CHR ''='' \<in> set repoArg"
    by (auto simp: prefix_def)
  then obtain a b rest where "split CHR ''='' repoArg = a # b # rest"
    using split_two by blast
  with Some show ?thesis by (simp add: parseTargetRepos_def)
qed

lemma log_fields [simp]:
  "world (log lv m st) = world st"
  "execs (log lv m st) = execs st"
  "reports (log lv m st) = reports st"
  "summary (log lv m st) = summary st"
  "console (log lv m st) = console st @ [Log lv m]"
  by (simp_all add: log_def)

lemma print_fields [simp]:
  "world (print m st) = world st"
  "execs (print m st) = execs st"
  "reports (print m st) = reports st"
  "summary (print m st) = summary st"
  "console (print m st) = console st @ [Out m]"
  by (simp_all add: print_def)

lemma foldl_log_fields [simp]:
  "world (foldl (\<lambda>s x. log lv (f x) s) st xs) = world st"
  "execs (foldl (\<lambda>s x. log lv (f x) s) st xs) = execs st"
  "reports (foldl (\<lambda>s x. log lv (f x) s) st xs) = reports st"
  "summary (foldl (\<lambda>s x. log lv (f x) s) st xs) = summary st"
  "console (foldl (\<lambda>s x. log lv (f x) s) st xs) = console st @ map (\<lambda>x. Log lv (f x)) xs"
  by (induction xs arbitrary: st; simp)+

lemma discoverLoop_frame:
  "discoverLoop h l items repos st = (res, st') \<Longrightarrow>
     world st' = world st \<and> execs st' = execs st \<and> reports st' = reports st \<and>
     summary st' = summary st"
  by (induction items arbitrary: repos st)
     (auto simp: Let_def split: option.splits if_splits)



lemma discoverLoop_fst:
  "world st = world st2 \<Longrightarrow>
     fst (discoverLoop h l items repos st) = fst (discoverLoop h l items repos st2)"
proof (induction items arbitrary: repos st st2)
  case Nil
  then show ?case by simp
next
  case (Cons item items)
  have w: "world (log Warn (UnknownRepository item) st)
             = world (log Warn (UnknownRepository item) st2)"
    using Cons.prems by simp
  show ?case
    using Cons.prems Cons.IH [OF Cons.prems] Cons.IH [OF w]
    by (simp add: Let_def split: option.splits)
qed

lemma discoverLoop_repos:
  "discoverLoop h l items repos st = (Inr rs, st') \<Longrightarrow>
     \<exists>new. rs = repos @ new \<and> subseq (map name new) items \<and>
       (\<forall>r\<in>set new.
          path r = path_join (workspaceRoot l) (name r) \<and>
          isDirectory h (world st) (path r) = Some True \<and>
          prefix ''Pyrrha-'' (name r) \<and> name r \<noteq> ''Pyrrha-Development-Tools'' \<and>
          map_of REPO_CONFIGS (name r) = Some (config r))"
proof (induction items arbitrary: repos st)
  case Nil
  then show ?case by simp
next
  case (Cons item items)
  let ?full = "path_join (workspaceRoot l) item"
  from Cons.prems obtain isDir where d: "isDirectory h (world st) ?full = Some isDir"
    by (auto simp: Let_def split: option.splits)
  show ?case
  proof (cases "isDir \<and> prefix ''Pyrrha-'' item \<and> item \<noteq> ''Pyrrha-Development-Tools''")
    case False
    with Cons.prems d have "discoverLoop h l items repos st = (Inr rs, st')"
      by (auto simp: Let_def)
    from Cons.IH [OF this] show ?thesis
      by (auto intro: subseq_Cons')
  next
    case True
    show ?thesis
    proof (cases "map_of REPO_CONFIGS item")
      case None
      with Cons.prems d True
      have "discoverLoop h l items repos (log Warn (UnknownRepository item) st) = (Inr rs, st')"
        by (auto simp: Let_def)
      from Cons.IH [OF this] show ?thesis
        by auto
    next
      case (Some c)
      let ?r = "\<lparr>name = item, path = ?full, config = c\<rparr>"
      from Cons.prems d True Some
      have "discoverLoop h l items (repos @ [?r]) st = (Inr rs, st')"
        by (auto simp: Let_def)
      from Cons.IH [OF this] obtain new where
        n: "rs = (repos @ [?r]) @ new" "subseq (map name new) items"
           "\<forall>r\<in>set new.
              path r = path_join (workspaceRoot l) (name r) \<and>
              isDirectory h (world st) (path r) = Some True \<and>
              prefix ''Pyrrha-'' (name r) \<and> name r \<noteq> ''Pyrrha-Development-Tools'' \<and>
              map_of REPO_CONFIGS (name r) = Some (config r)"
        by blast
      show ?thesis
        apply (rule exI [of _ "?r # new"])
        using n d True Some by auto
    qed
  qed
qed

lemma discoverLoop_throws:
  "(\<exists>rs. fst (discoverLoop h l items repos st) = Inr rs) \<longleftrightarrow>
     list_all (\<lambda>item. isDirectory h (world st) (path_join (workspaceRoot l) item) \<noteq> None) items"
proof (induction items arbitrary: repos st)
  case Nil
  then show ?case by simp
next
  case (Cons item items)
  show ?case
    using Cons.IH [of repos st]
          Cons.IH [of repos "log Warn (UnknownRepository item) st"]
          Cons.IH [of "repos @ [\<lparr>name = item, path = path_join (workspaceRoot l) item,
                                 config = the (map_of REPO_CONFIGS item)\<rparr>]" st]
    by (auto simp: Let_def split: option.splits)
qed

lemma runScript_frame:
  "runScript h l s p n st = (ok, st') \<Longrightarrow>
     reports st' = reports st \<and> summary st' = summary st"
  by (auto simp: runScript_def Let_def split: if_splits prod.splits exec_result.splits)

lemma runScript_execs:
  "runScript h l s p n st = (ok, st') \<Longrightarrow>
     \<exists>new. execs st' = execs st @ new \<and>
       (\<forall>c\<in>set new.
          scriptPath c = path_join (path_join (toolsRoot l) ''scripts'') s \<and>
          args c = (if fixMode l then [''--fix''] else []) \<and> cwd c = p \<and>
          env c = (process_env h)(''REPO_PATH'' \<mapsto> p, ''REPO_NAME'' \<mapsto> n,
                                  ''TOOLS_ROOT'' \<mapsto> toolsRoot l) \<and>
          inherit c = verbose l)"
  by (auto simp: runScript_def Let_def split: if_splits prod.splits exec_result.splits)

lemma runScript_exists:
  "runScript h l s p n st = (ok, st') \<Longrightarrow>
     existsSync h (world st) (path_join (path_join (toolsRoot l) ''scripts'') s) \<Longrightarrow>
     \<exists>c. execs st' = execs st @ [c] \<and>
       scriptPath c = path_join (path_join (toolsRoot l) ''scripts'') s"
  by (auto simp: runScript_def Let_def split: if_splits prod.splits exec_result.splits)


lemma lintScripts_results:
  "lintScripts h l r ss results st = (out, st') \<Longrightarrow>
     reports st' = reports st \<and> summary st' = summary st \<and>
     (\<exists>rs. out = results @ rs \<and> map fst rs = ss)"
proof (induction ss arbitrary: results st)
  case Nil
  then show ?case by simp
next
  case (Cons s ss)
  obtain ok st1 where rs: "runScript h l s (path r) (name r) st = (ok, st1)"
    by (cases "runScript h l s (path r) (name r) st")
  with Cons.prems have "lintScripts h l r ss (results @ [(s, ok)]) st1 = (out, st')"
    by simp
  from Cons.IH [OF this] runScript_frame [OF rs] show ?case
    by auto
qed

lemma runScript_issued:
  "runScript h l s (path r) (name r) st = (ok, st') \<Longrightarrow>
     \<exists>new. execs st' = execs st @ new \<and> (\<forall>c\<in>set new. issued h l r c)"
  using runScript_execs [of h l s "path r" "name r" st ok st']
  unfolding issued_def by blast

lemma lintScripts_execs:
  "lintScripts h l r ss results st = (out, st') \<Longrightarrow>
     \<exists>new. execs st' = execs st @ new \<and> (\<forall>c\<in>set new. issued h l r c)"
proof (induction ss arbitrary: results st)
  case Nil
  then show ?case by simp
next
  case (Cons s ss)
  obtain ok st1 where rs: "runScript h l s (path r) (name r) st = (ok, st1)"
    by (cases "runScript h l s (path r) (name r) st")
  with Cons.prems have "lintScripts h l r ss (results @ [(s, ok)]) st1 = (out, st')"
    by simp
  from Cons.IH [OF this] obtain new2 where
    n2: "execs st' = execs st1 @ new2" "\<forall>c\<in>set new2. issued h l r c"
    by blast
  from runScript_issued [OF rs] obtain new1 where
    n1: "execs st1 = execs st @ new1" "\<forall>c\<in>set new1. issued h l r c"
    by blast
  have "execs st' = execs st @ (new1 @ new2)" "\<forall>c\<in>set (new1 @ new2). issued h l r c"
    using n1 n2 by auto
  then show ?case by blast
qed

lemma lintScripts_all_exist:
  "lintScripts h l r ss results st = (out, st') \<Longrightarrow>
     \<forall>w. \<forall>s\<in>set ss. existsSync h w (path_join (path_join (toolsRoot l) ''scripts'') s) \<Longrightarrow>
     \<exists>new. execs st' = execs st @ new \<and>
       map scriptPath new = map (path_join (path_join (toolsRoot l) ''scripts'')) ss"
proof (induction ss arbitrary: results st)
  case Nil
  then show ?case by simp
next
  case (Cons s ss)
  obtain ok st1 where rs: "runScript h l s (path r) (name r) st = (ok, st1)"
    by (cases "runScript h l s (path r) (name r) st")
  with Cons.prems have "lintScripts h l r ss (results @ [(s, ok)]) st1 = (out, st')"
    by simp
  moreover from Cons.prems(2)
  have "\<forall>w. \<forall>s\<in>set ss. existsSync h w (path_join (path_join (toolsRoot l) ''scripts'') s)"
    by simp
  ultimately obtain new2 where
    n2: "execs st' = execs st1 @ new2"
        "map scriptPath new2 = map (path_join (path_join (toolsRoot l) ''scripts'')) ss"
    using Cons.IH by blast
  from Cons.prems(2)
  have "existsSync h (world st) (path_join (path_join (toolsRoot l) ''scripts'') s)"
    by simp
  from runScript_exists [OF rs this] obtain c where
    c: "execs st1 = execs st @ [c]"
       "scriptPath c = path_join (path_join (toolsRoot l) ''scripts'') s"
    by blast
  show ?case
    apply (rule exI [of _ "c # new2"])
    using c n2 by simp
qed

lemma lintRepository_reports:
  "lintRepository h l r st = (ok, st') \<Longrightarrow>
     summary st' = summary st \<and>
     (\<exists>rs. reports st' = reports st @ [(name r, rs)] \<and>
            map fst rs = scripts (config r) \<and> ok = list_all snd rs)"
proof -
  assume a: "lintRepository h l r st = (ok, st')"
  obtain rs st2 where
    ls: "lintScripts h l r (scripts (config r)) [] (log Header (Linting (name r)) st) = (rs, st2)"
    by (cases "lintScripts h l r (scripts (config r)) [] (log Header (Linting (name r)) st)")
  from lintScripts_results [OF ls] a ls show ?thesis
    by (auto simp: lintRepository_def Let_def)
qed

lemma lintRepository_execs:
  "lintRepository h l r st = (ok, st') \<Longrightarrow>
     \<exists>new. execs st' = execs st @ new \<and> (\<forall>c\<in>set new. issued h l r c)"
proof -
  assume a: "lintRepository h l r st = (ok, st')"
  obtain rs st2 where
    ls: "lintScripts h l r (scripts (config r)) [] (log Header (Linting (name r)) st) = (rs, st2)"
    by (cases "lintScripts h l r (scripts (config r)) [] (log Header (Linting (name r)) st)")
  from lintScripts_execs [OF ls] a ls show ?thesis
    by (auto simp: lintRepository_def Let_def)
qed

lemma lintRepos_reports:
  "lintRepos h l repos results st = (out, st') \<Longrightarrow>
     summary st' = summary st \<and>
     (\<exists>rps. reports st' = reports st @ rps \<and> map fst rps = map name repos \<and>
        list_all2 (\<lambda>r rp. map fst (snd rp) = scripts (config r)) repos rps \<and>
        out = results @ map (\<lambda>rp. (fst rp, list_all snd (snd rp))) rps)"
proof (induction repos arbitrary: results st)
  case Nil
  then show ?case by simp
next
  case (Cons r repos)
  obtain ok st1 where lr: "lintRepository h l r st = (ok, st1)"
    by (cases "lintRepository h l r st")
  with Cons.prems have "lintRepos h l repos (results @ [(name r, ok)]) st1 = (out, st')"
    by simp
  from Cons.IH [OF this] obtain rps where
    t: "summary st' = summary st1" "reports st' = reports st1 @ rps"
       "map fst rps = map name repos"
       "list_all2 (\<lambda>r rp. map fst (snd rp) = scripts (config r)) repos rps"
       "out = (results @ [(name r, ok)]) @ map (\<lambda>rp. (fst rp, list_all snd (snd rp))) rps"
    by blast
  from lintRepository_reports [OF lr] obtain rs where
    h: "summary st1 = summary st" "reports st1 = reports st @ [(name r, rs)]"
       "map fst rs = scripts (config r)" "ok = list_all snd rs"
    by blast
  show ?case
    apply (rule conjI)
    using t h apply simp
    apply (rule exI [of _ "(name r, rs) # rps"])
    using t h by simp
qed

lemma lintRepos_execs:
  "lintRepos h l repos results st = (out, st') \<Longrightarrow>
     \<exists>new. execs st' = execs st @ new \<and> (\<forall>c\<in>set new. \<exists>r\<in>set repos. issued h l r c)"
proof (induction repos arbitrary: results st)
  case Nil
  then show ?case by simp
next
  case (Cons r repos)
  obtain ok st1 where lr: "lintRepository h l r st = (ok, st1)"
    by (cases "lintRepository h l r st")
  with Cons.prems have "lintRepos h l repos (results @ [(name r, ok)]) st1 = (out, st')"
    by simp
  from Cons.IH [OF this] obtain new2 where
    n2: "execs st' = execs st1 @ new2" "\<forall>c\<in>set new2. \<exists>r\<in>set repos. issued h l r c"
    by blast
  from lintRepository_execs [OF lr] obtain new1 where
    n1: "execs st1 = execs st @ new1" "\<forall>c\<in>set new1. issued h l r c"
    by blast
  have "execs st' = execs st @ (new1 @ new2)"
       "\<forall>c\<in>set (new1 @ new2). \<exists>q\<in>set (r # repos). issued h l q c"
    using n1 n2 by auto
  then show ?case by blast
qed


lemma discoverRepos_frame:
  "discoverRepos h l st = (res, st') \<Longrightarrow>
     world st' = world st \<and> execs st' = execs st \<and> reports st' = reports st \<and>
     summary st' = summary st"
  by (auto simp: discoverRepos_def split: option.splits dest: discoverLoop_frame)

lemma discoverRepos_fst:
  "world st = world st2 \<Longrightarrow> fst (discoverRepos h l st) = fst (discoverRepos h l st2)"
  by (auto simp: discoverRepos_def split: option.splits intro: discoverLoop_fst)

lemma discoverRepos_repos:
  assumes "fst (discoverRepos h l st) = Inr repos"
  shows "\<exists>items. readdirSync h (world st) (workspaceRoot l) = Some items \<and>
           subseq (map name repos) items \<and>
           (\<forall>r\<in>set repos.
              path r = path_join (workspaceRoot l) (name r) \<and>
              isDirectory h (world st) (path r) = Some True \<and>
              prefix ''Pyrrha-'' (name r) \<and> name r \<noteq> ''Pyrrha-Development-Tools'' \<and>
              map_of REPO_CONFIGS (name r) = Some (config r))"
proof -
  from assms obtain items where
    i: "readdirSync h (world st) (workspaceRoot l) = Some items"
    by (auto simp: discoverRepos_def split: option.splits)
  with assms obtain st' where "discoverLoop h l items [] st = (Inr repos, st')"
    by (cases "discoverLoop h l items [] st") (auto simp: discoverRepos_def)
  from discoverLoop_repos [OF this] i show ?thesis
    by auto
qed

lemma discoverRepos_readable:
  "workspaceRoot l = WORKSPACE_ROOT h \<Longrightarrow>
     (\<exists>repos. fst (discoverRepos h l st) = Inr repos) \<longleftrightarrow> readable h (world st)"
  using discoverLoop_throws [of h l _ "[]" st]
  by (auto simp: discoverRepos_def readable_def split: option.splits)

lemma no_failure: "(filter (\<lambda>x. \<not> P x) xs = []) \<longleftrightarrow> list_all P xs"
  by (induction xs) auto

lemma run_rejected:
  assumes "fst (discoverRepos h l st) = Inl e"
  shows "fst (run h l st) = Rejected e \<and> execs (snd (run h l st)) = execs st \<and>
         reports (snd (run h l st)) = reports st \<and> summary (snd (run h l st)) = summary st"
proof -
  let ?st1 = "log Info (Mode (fixMode l)) (log Header Banner st)"
  have "fst (discoverRepos h l ?st1) = Inl e"
    using assms discoverRepos_fst [of ?st1 st h l] by simp
  then obtain st2 where d: "discoverRepos h l ?st1 = (Inl e, st2)"
    by (cases "discoverRepos h l ?st1") auto
  from discoverRepos_frame [OF d] d show ?thesis
    by (simp add: run_def)
qed

lemma run_nothing:
  assumes "fst (discoverRepos h l st) = Inr repos" and "select l repos = []"
  shows "fst (run h l st) = Returned \<and> execs (snd (run h l st)) = execs st \<and>
         reports (snd (run h l st)) = reports st \<and> summary (snd (run h l st)) = summary st \<and>
         last (console (snd (run h l st))) = Log Warn NoRepositoriesFound"
proof -
  let ?st1 = "log Info (Mode (fixMode l)) (log Header Banner st)"
  have "fst (discoverRepos h l ?st1) = Inr repos"
    using assms discoverRepos_fst [of ?st1 st h l] by simp
  then obtain st2 where d: "discoverRepos h l ?st1 = (Inr repos, st2)"
    by (cases "discoverRepos h l ?st1") auto
  from discoverRepos_frame [OF d] d assms(2) show ?thesis
    by (simp add: run_def)
qed

lemma run_lints:
  assumes "fst (discoverRepos h l st) = Inr repos" and "select l repos \<noteq> []"
  shows "\<exists>rps new.
           reports (snd (run h l st)) = reports st @ rps \<and>
           map fst rps = map name (select l repos) \<and>
           list_all2 (\<lambda>r rp. map fst (snd rp) = scripts (config r)) (select l repos) rps \<and>
           summary (snd (run h l st)) = Some (map (\<lambda>rp. (fst rp, list_all snd (snd rp))) rps) \<and>
           fst (run h l st) = (if all_succeeded rps then Returned else Exit 1) \<and>
           execs (snd (run h l st)) = execs st @ new \<and>
           (\<forall>c\<in>set new. \<exists>r\<in>set (select l repos). issued h l r c)"
proof -
  let ?st1 = "log Info (Mode (fixMode l)) (log Header Banner st)"
  let ?t = "select l repos"
  have "fst (discoverRepos h l ?st1) = Inr repos"
    using assms discoverRepos_fst [of ?st1 st h l] by simp
  then obtain st2 where d: "discoverRepos h l ?st1 = (Inr repos, st2)"
    by (cases "discoverRepos h l ?st1") auto
  let ?st4 = "foldl (\<lambda>s r. log Info (Bullet (name r) (rtype (config r))) s)
                (log Info (Found (length ?t)) st2) ?t"
  obtain results st5 where lr: "lintRepos h l ?t [] ?st4 = (results, st5)"
    by (cases "lintRepos h l ?t [] ?st4")
  from lintRepos_reports [OF lr] obtain rps where
    r: "summary st5 = summary ?st4" "reports st5 = reports ?st4 @ rps"
       "map fst rps = map name ?t"
       "list_all2 (\<lambda>r rp. map fst (snd rp) = scripts (config r)) ?t rps"
       "results = map (\<lambda>rp. (fst rp, list_all snd (snd rp))) rps"
    by auto
  from lintRepos_execs [OF lr] obtain new where
    n: "execs st5 = execs ?st4 @ new" "\<forall>c\<in>set new. \<exists>r\<in>set ?t. issued h l r c"
    by blast
  have a: "(filter (\<lambda>x. \<not> snd x) results = []) = all_succeeded rps"
    using r(5) by (simp add: no_failure all_succeeded_def list_all_iff)
  have "reports (snd (run h l st)) = reports st @ rps"
    using assms(2) d lr r discoverRepos_frame [OF d]
    by (simp add: run_def Let_def)
  moreover have "summary (snd (run h l st)) = Some (map (\<lambda>rp. (fst rp, list_all snd (snd rp))) rps)"
    using assms(2) d lr r(5)
    by (simp add: run_def Let_def)
  moreover have "fst (run h l st) = (if all_succeeded rps then Returned else Exit 1)"
    using assms(2) d lr a
    by (simp add: run_def Let_def)
  moreover have "execs (snd (run h l st)) = execs st @ new"
    using assms(2) d lr n(1) discoverRepos_frame [OF d]
    by (simp add: run_def Let_def)
  ultimately show ?thesis
    using r(3,4) n(2) by blast
qed

lemma main_run:
  assumes "\<not> (''--help'' \<in> set argv \<or> ''-h'' \<in> set argv)"
  shows "\<exists>l. PyrrhaLinter h argv = Inr l \<and>
           workspaceRoot l = WORKSPACE_ROOT h \<and> toolsRoot l = TOOLS_ROOT h \<and>
           fixMode l = (''--fix'' \<in> set argv) \<and>
           parseTargetRepos argv = Inr (targetRepos l) \<and>
           fst (main h argv w) =
             (case fst (run h l (initial w)) of Returned \<Rightarrow> 0 | Exit c \<Rightarrow> c | Rejected e \<Rightarrow> 1) \<and>
           execs (snd (main h argv w)) = execs (snd (run h l (initial w))) \<and>
           reports (snd (main h argv w)) = reports (snd (run h l (initial w))) \<and>
           summary (snd (main h argv w)) = summary (snd (run h l (initial w))) \<and>
           console (snd (main h argv w)) =
             console (snd (run h l (initial w))) @
             (case fst (run h l (initial w)) of Rejected e \<Rightarrow> [FatalError e] | _ \<Rightarrow> [])"
proof -
  obtain t where t: "parseTargetRepos argv = Inr t"
    using parseTargetRepos_total by blast
  let ?l = "\<lparr>workspaceRoot = WORKSPACE_ROOT h, toolsRoot = TOOLS_ROOT h,
             fixMode = (''--fix'' \<in> set argv),
             verbose = (''--verbose'' \<in> set argv \<or> ''-v'' \<in> set argv),
             targetRepos = t\<rparr>"
  have p: "PyrrhaLinter h argv = Inr ?l"
    using t by (simp add: PyrrhaLinter_def)
  obtain e st where r: "run h ?l (initial w) = (e, st)"
    by (cases "run h ?l (initial w)")
  show ?thesis
    apply (rule exI [of _ ?l])
    using assms p t r by (cases e) (simp_all add: main_def)
qed

lemma main_help:
  assumes "''--help'' \<in> set argv \<or> ''-h'' \<in> set argv"
  shows "fst (main h argv w) = 0 \<and> execs (snd (main h argv w)) = [] \<and>
         reports (snd (main h argv w)) = [] \<and> summary (snd (main h argv w)) = None"
  using assms by (auto simp: main_def initial_def)

lemma initial_fields [simp]:
  "world (initial w) = w" "execs (initial w) = []" "reports (initial w) = []"
  "summary (initial w) = None" "console (initial w) = []"
  by (simp_all add: initial_def)

lemmas evaluation =
  main_def PyrrhaLinter_def parseTargetRepos_def run_def discoverRepos_def select_def
  lintRepository_def runScript_def initial_def path_join_def REPO_CONFIGS_def

section \<open>The commands of a run, one by one\<close>

lemma world_after_append:
  "world_after h w (cs @ ds) = world_after h (world_after h w cs) ds"
  by (induction cs arbitrary: w) simp_all

lemma runScript_missing:
  "\<not> existsSync h (world st) (script_file l s) \<Longrightarrow>
     runScript h l s p n st = (False, log Error (ScriptNotFound (script_file l s)) st)"
  by (simp add: runScript_def script_file_def)

lemma runScript_present:
  assumes "existsSync h (world st) (script_file l s)"
  shows "fst (runScript h l s (path r) (name r) st) =
           succeeded (fst (execSync h (world st) (call_for h l r s)))"
    and "execs (snd (runScript h l s (path r) (name r) st)) = execs st @ [call_for h l r s]"
    and "world (snd (runScript h l s (path r) (name r) st)) =
           snd (execSync h (world st) (call_for h l r s))"
  using assms
  by (simp_all add: runScript_def script_file_def call_for_def Let_def
        split: prod.splits exec_result.splits)

lemma lintScripts_acc:
  "lintScripts h l r ss results st =
     (results @ fst (lintScripts h l r ss [] st), snd (lintScripts h l r ss [] st))"
proof (induction ss arbitrary: results st)
  case Nil
  show ?case by simp
next
  case (Cons s ss)
  obtain ok st1 where rs: "runScript h l s (path r) (name r) st = (ok, st1)"
    by (cases "runScript h l s (path r) (name r) st")
  have a: "lintScripts h l r ss (results @ [(s, ok)]) st1 =
      ((results @ [(s, ok)]) @ fst (lintScripts h l r ss [] st1),
       snd (lintScripts h l r ss [] st1))"
    by (rule Cons.IH)
  have b: "lintScripts h l r ss [(s, ok)] st1 =
      ([(s, ok)] @ fst (lintScripts h l r ss [] st1), snd (lintScripts h l r ss [] st1))"
    by (rule Cons.IH)
  show ?case
    by (simp add: rs a b)
qed

lemma lintScripts_step:
  "runScript h l s (path r) (name r) st = (ok, st1) \<Longrightarrow>
     lintScripts h l r (s # ss) [] st =
       ((s, ok) # fst (lintScripts h l r ss [] st1), snd (lintScripts h l r ss [] st1))"
  using lintScripts_acc [of h l r ss "[(s, ok)]" st1] by simp

lemma lintRepos_acc:
  "lintRepos h l repos results st =
     (results @ fst (lintRepos h l repos [] st), snd (lintRepos h l repos [] st))"
proof (induction repos arbitrary: results st)
  case Nil
  show ?case by simp
next
  case (Cons r repos)
  obtain ok st1 where lr: "lintRepository h l r st = (ok, st1)"
    by (cases "lintRepository h l r st")
  have a: "lintRepos h l repos (results @ [(name r, ok)]) st1 =
      ((results @ [(name r, ok)]) @ fst (lintRepos h l repos [] st1),
       snd (lintRepos h l repos [] st1))"
    by (rule Cons.IH)
  have b: "lintRepos h l repos [(name r, ok)] st1 =
      ([(name r, ok)] @ fst (lintRepos h l repos [] st1), snd (lintRepos h l repos [] st1))"
    by (rule Cons.IH)
  show ?case
    by (simp add: lr a b)
qed

lemma lintRepos_step:
  "lintRepos h l (r # repos) [] st =
     ((name r, fst (lintRepository h l r st)) #
        fst (lintRepos h l repos [] (snd (lintRepository h l r st))),
      snd (lintRepos h l repos [] (snd (lintRepository h l r st))))"
  using lintRepos_acc [of h l repos "[(name r, fst (lintRepository h l r st))]"
          "snd (lintRepository h l r st)"]
  by (simp add: case_prod_beta)

lemma attempts_append:
  "attempts h w (cs @ ds) =
     attempts h w cs @ attempts h (world_after h w (attempts h w cs)) ds"
  by (induction cs arbitrary: w) simp_all

lemma verdicts_append:
  "verdicts h w (cs @ ds) =
     verdicts h w cs @ verdicts h (world_after h w (attempts h w cs)) ds"
  by (induction cs arbitrary: w) simp_all

lemma scriptPath_call_for [simp]: "scriptPath (call_for h l r s) = script_file l s"
  by (simp add: call_for_def)

lemma lintScripts_trace:
  "execs (snd (lintScripts h l r ss [] st)) =
     execs st @ attempts h (world st) (map (call_for h l r) ss) \<and>
   world (snd (lintScripts h l r ss [] st)) =
     world_after h (world st) (attempts h (world st) (map (call_for h l r) ss)) \<and>
   map fst (fst (lintScripts h l r ss [] st)) = ss \<and>
   map snd (fst (lintScripts h l r ss [] st)) =
     verdicts h (world st) (map (call_for h l r) ss)"
proof (induction ss arbitrary: st)
  case Nil
  show ?case by simp
next
  case (Cons s ss)
  obtain ok st1 where rs: "runScript h l s (path r) (name r) st = (ok, st1)"
    by (cases "runScript h l s (path r) (name r) st")
  note step = lintScripts_step [OF rs, of ss]
  note ih = Cons.IH [of st1]
  show ?case
  proof (cases "existsSync h (world st) (script_file l s)")
    case False
    from runScript_missing [OF False, of "path r" "name r"] rs
    have f: "ok = False" "execs st1 = execs st" "world st1 = world st"
      by simp_all
    show ?thesis
      using ih False by (simp add: step f del: lintScripts.simps)
  next
    case True
    from runScript_present [OF True, of r] rs
    have f: "ok = succeeded (fst (execSync h (world st) (call_for h l r s)))"
      "execs st1 = execs st @ [call_for h l r s]"
      "world st1 = snd (execSync h (world st) (call_for h l r s))"
      by simp_all
    show ?thesis
      using ih True by (simp add: step f del: lintScripts.simps)
  qed
qed

lemma lintRepository_trace:
  shows "\<exists>rs.
           reports (snd (lintRepository h l r st)) = reports st @ [(name r, rs)] \<and>
           fst (lintRepository h l r st) = list_all snd rs \<and>
           map fst rs = scripts (config r) \<and>
           map snd rs = verdicts h (world st) (map (call_for h l r) (scripts (config r)))"
    and "execs (snd (lintRepository h l r st)) =
           execs st @ attempts h (world st) (map (call_for h l r) (scripts (config r)))"
    and "world (snd (lintRepository h l r st)) =
           world_after h (world st)
             (attempts h (world st) (map (call_for h l r) (scripts (config r))))"
proof -
  let ?st1 = "log Header (Linting (name r)) st"
  let ?L = "lintScripts h l r (scripts (config r)) [] ?st1"
  note e = lintScripts_trace [of h l r "scripts (config r)" ?st1]
  have fr: "reports (snd ?L) = reports st"
    using lintScripts_results [of h l r "scripts (config r)" "[]" ?st1 "fst ?L" "snd ?L"]
    by simp
  have r: "reports (snd (lintRepository h l r st)) = reports st @ [(name r, fst ?L)]"
    using fr by (simp add: lintRepository_def Let_def case_prod_beta)
  have f: "fst (lintRepository h l r st) = list_all snd (fst ?L)"
    by (simp add: lintRepository_def Let_def case_prod_beta)
  have m: "map fst (fst ?L) = scripts (config r)"
    using e by simp
  have o: "map snd (fst ?L) =
             verdicts h (world st) (map (call_for h l r) (scripts (config r)))"
    using e by simp
  show "\<exists>rs.
           reports (snd (lintRepository h l r st)) = reports st @ [(name r, rs)] \<and>
           fst (lintRepository h l r st) = list_all snd rs \<and>
           map fst rs = scripts (config r) \<and>
           map snd rs = verdicts h (world st) (map (call_for h l r) (scripts (config r)))"
    by (rule exI [of _ "fst ?L"], intro conjI, rule r, rule f, rule m, rule o)
  show "execs (snd (lintRepository h l r st)) =
           execs st @ attempts h (world st) (map (call_for h l r) (scripts (config r)))"
    using e by (simp add: lintRepository_def Let_def case_prod_beta)
  show "world (snd (lintRepository h l r st)) =
           world_after h (world st)
             (attempts h (world st) (map (call_for h l r) (scripts (config r))))"
    using e by (simp add: lintRepository_def Let_def case_prod_beta)
qed

lemma lintRepos_trace:
  "execs (snd (lintRepos h l repos [] st)) =
     execs st @ attempts h (world st) (scheduled h l repos) \<and>
   world (snd (lintRepos h l repos [] st)) =
     world_after h (world st) (attempts h (world st) (scheduled h l repos)) \<and>
   (\<exists>rps. reports (snd (lintRepos h l repos [] st)) = reports st @ rps \<and>
      map fst rps = map name repos \<and>
      list_all2 (\<lambda>r rp. map fst (snd rp) = scripts (config r)) repos rps \<and>
      fst (lintRepos h l repos [] st) = map (\<lambda>rp. (fst rp, list_all snd (snd rp))) rps \<and>
      map snd (concat (map snd rps)) = verdicts h (world st) (scheduled h l repos))"
proof (induction repos arbitrary: st)
  case Nil
  show ?case by (simp add: scheduled_def)
next
  case (Cons r repos)
  let ?st1 = "snd (lintRepository h l r st)"
  let ?Y = "lintRepos h l repos [] ?st1"
  let ?cr = "map (call_for h l r) (scripts (config r))"
  let ?rest = "scheduled h l repos"
  have sch: "scheduled h l (r # repos) = ?cr @ ?rest"
    by (simp add: scheduled_def)
  note step = lintRepos_step [of h l r repos st]
  from lintRepository_trace(1) [of h l r st] obtain rs where
    rs: "reports ?st1 = reports st @ [(name r, rs)]"
        "fst (lintRepository h l r st) = list_all snd rs"
        "map fst rs = scripts (config r)"
        "map snd rs = verdicts h (world st) ?cr"
    by blast
  have e1: "execs ?st1 = execs st @ attempts h (world st) ?cr"
    by (rule lintRepository_trace(2))
  have w1: "world ?st1 = world_after h (world st) (attempts h (world st) ?cr)"
    by (rule lintRepository_trace(3))
  from Cons.IH [of ?st1] obtain rps where
    ih: "execs (snd ?Y) = execs ?st1 @ attempts h (world ?st1) ?rest"
        "world (snd ?Y) = world_after h (world ?st1) (attempts h (world ?st1) ?rest)"
        "reports (snd ?Y) = reports ?st1 @ rps"
        "map fst rps = map name repos"
        "list_all2 (\<lambda>r rp. map fst (snd rp) = scripts (config r)) repos rps"
        "fst ?Y = map (\<lambda>rp. (fst rp, list_all snd (snd rp))) rps"
        "map snd (concat (map snd rps)) = verdicts h (world ?st1) ?rest"
    by blast
  let ?all = "(name r, rs) # rps"
  have a: "execs (snd (lintRepos h l (r # repos) [] st)) =
             execs st @ attempts h (world st) (scheduled h l (r # repos))"
    using ih(1) e1 w1 by (simp add: step sch attempts_append del: lintRepos.simps)
  have b: "world (snd (lintRepos h l (r # repos) [] st)) =
             world_after h (world st) (attempts h (world st) (scheduled h l (r # repos)))"
    using ih(2) w1
    by (simp add: step sch attempts_append world_after_append del: lintRepos.simps)
  have c1: "reports (snd (lintRepos h l (r # repos) [] st)) = reports st @ ?all"
    using ih(3) rs(1) by (simp add: step del: lintRepos.simps)
  have c2: "map fst ?all = map name (r # repos)"
    using ih(4) by simp
  have c3: "list_all2 (\<lambda>r rp. map fst (snd rp) = scripts (config r)) (r # repos) ?all"
    using ih(5) rs(3) by simp
  have c4: "fst (lintRepos h l (r # repos) [] st) =
              map (\<lambda>rp. (fst rp, list_all snd (snd rp))) ?all"
    using ih(6) rs(2) by (simp add: step del: lintRepos.simps)
  have c5: "map snd (concat (map snd ?all)) =
              verdicts h (world st) (scheduled h l (r # repos))"
    using ih(7) rs(4) w1 by (simp add: sch verdicts_append)
  have c: "\<exists>rps. reports (snd (lintRepos h l (r # repos) [] st)) = reports st @ rps \<and>
            map fst rps = map name (r # repos) \<and>
            list_all2 (\<lambda>r rp. map fst (snd rp) = scripts (config r)) (r # repos) rps \<and>
            fst (lintRepos h l (r # repos) [] st) =
              map (\<lambda>rp. (fst rp, list_all snd (snd rp))) rps \<and>
            map snd (concat (map snd rps)) =
              verdicts h (world st) (scheduled h l (r # repos))"
    by (rule exI [of _ ?all], intro conjI, rule c1, rule c2, rule c3, rule c4, rule c5)
  from a b c show ?case
    by (intro conjI)
qed

lemma run_trace:
  assumes d: "fst (discoverRepos h l st) = Inr repos"
  shows "execs (snd (run h l st)) =
           execs st @ attempts h (world st) (scheduled h l (select l repos)) \<and>
         (\<exists>rps. reports (snd (run h l st)) = reports st @ rps \<and>
            map fst rps = map name (select l repos) \<and>
            list_all2 (\<lambda>r rp. map fst (snd rp) = scripts (config r)) (select l repos) rps \<and>
            map snd (concat (map snd rps)) =
              verdicts h (world st) (scheduled h l (select l repos)) \<and>
            fst (run h l st) = (if all_succeeded rps then Returned else Exit 1))"
proof (cases "select l repos = []")
  case True
  from run_nothing [OF d True] have
    n: "fst (run h l st) = Returned" "execs (snd (run h l st)) = execs st"
       "reports (snd (run h l st)) = reports st"
    by simp_all
  have a: "execs (snd (run h l st)) =
             execs st @ attempts h (world st) (scheduled h l (select l repos))"
    using n True by (simp add: scheduled_def)
  have c: "\<exists>rps. reports (snd (run h l st)) = reports st @ rps \<and>
            map fst rps = map name (select l repos) \<and>
            list_all2 (\<lambda>r rp. map fst (snd rp) = scripts (config r)) (select l repos) rps \<and>
            map snd (concat (map snd rps)) =
              verdicts h (world st) (scheduled h l (select l repos)) \<and>
            fst (run h l st) = (if all_succeeded rps then Returned else Exit 1)"
    by (rule exI [of _ "[]"]) (simp add: n True all_succeeded_def scheduled_def)
  from a c show ?thesis by (rule conjI)
next
  case False
  let ?st1 = "log Info (Mode (fixMode l)) (log Header Banner st)"
  let ?t = "select l repos"
  have "fst (discoverRepos h l ?st1) = Inr repos"
    using d discoverRepos_fst [of ?st1 st h l] by simp
  then obtain st2 where d2: "discoverRepos h l ?st1 = (Inr repos, st2)"
    by (cases "discoverRepos h l ?st1") auto
  note fr = discoverRepos_frame [OF d2]
  let ?st4 = "foldl (\<lambda>s r. log Info (Bullet (name r) (rtype (config r))) s)
                (log Info (Found (length ?t)) st2) ?t"
  let ?Y = "lintRepos h l ?t [] ?st4"
  have w4: "world ?st4 = world st" "execs ?st4 = execs st" "reports ?st4 = reports st"
    using fr by simp_all
  note e = lintRepos_trace [of h l ?t ?st4]
  from e obtain rps where
    r: "reports (snd ?Y) = reports ?st4 @ rps"
       "map fst rps = map name ?t"
       "list_all2 (\<lambda>r rp. map fst (snd rp) = scripts (config r)) ?t rps"
       "fst ?Y = map (\<lambda>rp. (fst rp, list_all snd (snd rp))) rps"
       "map snd (concat (map snd rps)) = verdicts h (world ?st4) (scheduled h l ?t)"
    by blast
  have ex4: "execs (snd ?Y) = execs ?st4 @ attempts h (world ?st4) (scheduled h l ?t)"
    using e by simp
  have f: "(filter (\<lambda>x. \<not> snd x) (fst ?Y) = []) = all_succeeded rps"
    using r(4) by (simp add: no_failure all_succeeded_def list_all_iff)
  have a: "execs (snd (run h l st)) = execs st @ attempts h (world st) (scheduled h l ?t)"
    using False d2 ex4 w4 by (simp add: run_def Let_def case_prod_beta)
  have c1: "reports (snd (run h l st)) = reports st @ rps"
    using False d2 r(1) w4 by (simp add: run_def Let_def case_prod_beta)
  have c4: "fst (run h l st) = (if all_succeeded rps then Returned else Exit 1)"
    using False d2 f by (simp add: run_def Let_def case_prod_beta)
  have c5: "map snd (concat (map snd rps)) = verdicts h (world st) (scheduled h l ?t)"
    using r(5) w4 by simp
  have c: "\<exists>rps. reports (snd (run h l st)) = reports st @ rps \<and>
            map fst rps = map name (select l repos) \<and>
            list_all2 (\<lambda>r rp. map fst (snd rp) = scripts (config r)) (select l repos) rps \<and>
            map snd (concat (map snd rps)) =
              verdicts h (world st) (scheduled h l (select l repos)) \<and>
            fst (run h l st) = (if all_succeeded rps then Returned else Exit 1)"
    by (rule exI [of _ rps], intro conjI, rule c1, rule r(2), rule r(3), rule c5, rule c4)
  from a c show ?thesis by (rule conjI)
qed

lemma run_not_rejected:
  assumes "fst (discoverRepos h l st) = Inr repos"
  shows "(fst (run h l st) = Returned \<or> fst (run h l st) = Exit 1) \<and>
         (\<exists>rps. reports (snd (run h l st)) = reports st @ rps \<and>
            map fst rps = map name (select l repos) \<and>
            list_all2 (\<lambda>r rp. map fst (snd rp) = scripts (config r)) (select l repos) rps)"
proof (cases "select l repos = []")
  case True
  from run_nothing [OF assms True] True show ?thesis
    by simp
next
  case False
  from run_lints [OF assms False] obtain rps where
    "reports (snd (run h l st)) = reports st @ rps"
    "map fst rps = map name (select l repos)"
    "list_all2 (\<lambda>r rp. map fst (snd rp) = scripts (config r)) (select l repos) rps"
    "fst (run h l st) = (if all_succeeded rps then Returned else Exit 1)"
    by blast
  then show ?thesis
    by (cases "all_succeeded rps") auto
qed

section \<open>The exit code of a run\<close>

text \<open>
  C1. A run without \<open>--help\<close> or \<open>-h\<close> exits with code 0 if and only if the
  workspace could be enumerated (no \<open>fs\<close> call threw) and every recorded script
  result of every linted repository is a success; in every other case the exit code is 1.
\<close>

theorem exit_code_zero_iff:
  assumes "\<not> (''--help'' \<in> set argv \<or> ''-h'' \<in> set argv)"
  shows "(fst (main h argv w) = 0 \<longleftrightarrow>
            readable h w \<and> all_succeeded (reports (snd (main h argv w)))) \<and>
         (fst (main h argv w) \<noteq> 0 \<longrightarrow> fst (main h argv w) = 1)"
proof -
  from main_run [OF assms, of h w] obtain l where
    l: "workspaceRoot l = WORKSPACE_ROOT h"
       "fst (main h argv w) =
          (case fst (run h l (initial w)) of Returned \<Rightarrow> 0 | Exit c \<Rightarrow> c | Rejected e \<Rightarrow> 1)"
       "reports (snd (main h argv w)) = reports (snd (run h l (initial w)))"
    by blast
  show ?thesis
  proof (cases "fst (discoverRepos h l (initial w))")
    case (Inl e)
    then have "\<not> readable h w"
      using discoverRepos_readable [OF l(1), of "initial w"] by simp
    with run_rejected [OF Inl] l show ?thesis by simp
  next
    case (Inr repos)
    then have rd: "readable h w"
      using discoverRepos_readable [OF l(1), of "initial w"] by auto
    show ?thesis
    proof (cases "select l repos = []")
      case True
      from run_nothing [OF Inr True] rd l show ?thesis
        by (simp add: all_succeeded_def)
    next
      case False
      from run_lints [OF Inr False] obtain rps where
        "reports (snd (run h l (initial w))) = reports (initial w) @ rps"
        "fst (run h l (initial w)) = (if all_succeeded rps then Returned else Exit 1)"
        by blast
      with rd l show ?thesis by simp
    qed
  qed
qed

text \<open>
  On \<open>demo\<close> the workspace is readable and \<open>lint-python.sh\<close> fails for
  \<open>Pyrrha-Rules-Decision\<close>: the exit code is 1.
\<close>

theorem exit_code_zero_iff_witness:
  "\<not> (''--help'' \<in> set [] \<or> ''-h'' \<in> set []) \<and> readable demo 0 \<and>
   \<not> all_succeeded (reports (snd (main demo [] 0))) \<and> fst (main demo [] 0) = 1"
proof -
  have r: "readable demo 0"
    by (simp add: readable_def demo_def path_join_def)
  have f: "\<not> all_succeeded (reports (snd (main demo [] 0)))"
    by (simp add: evaluation demo_def all_succeeded_def)
  from exit_code_zero_iff [of "[]" demo 0] r f show ?thesis
    by simp
qed

text \<open>
  Without the condition on the workspace the equivalence fails: on \<open>broken\<close> the
  \<open>statSync\<close> of the dangling link throws, no script is run, so no result is a
  failure, and the \<open>catch\<close> of the main program exits with code 1.
\<close>

theorem exit_code_counterexample:
  "all_succeeded (reports (snd (main broken [] 0))) \<and> fst (main broken [] 0) = 1"
  by (simp add: evaluation broken_def demo_def all_succeeded_def)

section \<open>Linting one repository\<close>

lemma lintRepository_console:
  "lintRepository h l r st = (ok, st') \<Longrightarrow>
     last (console st') = Log (if ok then Success else Error) (Status ok (name r))"
  by (auto simp: lintRepository_def Let_def split: prod.splits)

lemma lintRepository_all_exist:
  assumes "lintRepository h l r st = (ok, st')"
    and "\<forall>w. \<forall>s\<in>set (scripts (config r)).
           existsSync h w (path_join (path_join (toolsRoot l) ''scripts'') s)"
  shows "map scriptPath (drop (length (execs st)) (execs st')) =
           map (path_join (path_join (toolsRoot l) ''scripts'')) (scripts (config r))"
proof -
  obtain rs st2 where
    ls: "lintScripts h l r (scripts (config r)) [] (log Header (Linting (name r)) st) = (rs, st2)"
    by (cases "lintScripts h l r (scripts (config r)) [] (log Header (Linting (name r)) st)")
  from lintScripts_all_exist [OF ls assms(2)] assms(1) ls show ?thesis
    by (auto simp: lintRepository_def Let_def)
qed

text \<open>
  C2. \<open>lintRepository\<close> calls \<open>runScript\<close> for every script of the list, in order,
  whatever the earlier ones returned: one result is recorded for each script, the
  repository passes if and only if every result is a success (so a list with one failing
  and one succeeding script gives Failed), the last line printed is that status, and when
  the script files exist every script is run with \<open>execSync\<close>.
\<close>

theorem lintRepository_runs_every_script:
  assumes "lintRepository h l r st = (allPassed, st')"
  shows "\<exists>results.
           reports st' = reports st @ [(name r, results)] \<and>
           map fst results = scripts (config r) \<and>
           allPassed = list_all snd results \<and>
           last (console st') =
             Log (if allPassed then Success else Error) (Status allPassed (name r)) \<and>
           ((\<forall>w. \<forall>s\<in>set (scripts (config r)).
                existsSync h w (path_join (path_join (toolsRoot l) ''scripts'') s)) \<longrightarrow>
            map scriptPath (drop (length (execs st)) (execs st')) =
              map (path_join (path_join (toolsRoot l) ''scripts'')) (scripts (config r)))"
  using lintRepository_reports [OF assms] lintRepository_console [OF assms]
        lintRepository_all_exist [OF assms]
  by blast

text \<open>
  On \<open>demo\<close>, the list of \<open>mixed\<close> has \<open>lint-nodejs.sh\<close>, which succeeds, and
  \<open>lint-python.sh\<close>, which fails: both are run and the repository fails.
\<close>

theorem lintRepository_runs_every_script_witness:
  "fst (lintRepository demo checker mixed (initial 0)) = False \<and>
   reports (snd (lintRepository demo checker mixed (initial 0))) =
     [(''Mixed'', [(''lint-nodejs.sh'', True), (''lint-python.sh'', False)])] \<and>
   map scriptPath (execs (snd (lintRepository demo checker mixed (initial 0)))) =
     [''/t/scripts/lint-nodejs.sh'', ''/t/scripts/lint-python.sh'']"
proof -
  let ?res = "lintRepository demo checker mixed (initial 0)"
  have e: "\<forall>w. \<forall>s\<in>set (scripts (config mixed)).
      existsSync demo w (path_join (path_join (toolsRoot checker) ''scripts'') s)"
    by (simp add: demo_def)
  have r: "reports (snd ?res) =
       [(''Mixed'', [(''lint-nodejs.sh'', True), (''lint-python.sh'', False)])]"
    by (simp add: evaluation demo_def checker_def mixed_def)
  have "?res = (fst ?res, snd ?res)" by simp
  from lintRepository_runs_every_script [OF this] e r show ?thesis
    by (auto simp: mixed_def checker_def path_join_def)
qed

section \<open>Requested names that are not known\<close>








lemma map_of_known: "map_of REPO_CONFIGS n = Some c \<Longrightarrow> known n"
  unfolding known_def by (metis map_of_SomeD fst_conv image_eqI)
















text \<open>
  C4. When the workspace can be enumerated and every name requested with
  \<open>--repo=\<close> is unknown, nothing is linted: no script is run, no repository is
  reported, the run ends after the warning that no repositories were found, before
  any summary is made, and the exit code is 0.
\<close>

theorem no_known_request:
  assumes "\<not> (''--help'' \<in> set argv \<or> ''-h'' \<in> set argv)"
    and "parseTargetRepos argv = Inr (Some names)"
    and "\<forall>n\<in>set names. \<not> known n"
    and "readable h w"
  shows "fst (main h argv w) = 0 \<and> execs (snd (main h argv w)) = [] \<and>
         reports (snd (main h argv w)) = [] \<and> summary (snd (main h argv w)) = None \<and>
         last (console (snd (main h argv w))) = Log Warn NoRepositoriesFound"
proof -
  from main_run [OF assms(1), of h w] obtain l where
    l: "workspaceRoot l = WORKSPACE_ROOT h"
       "parseTargetRepos argv = Inr (targetRepos l)"
       "fst (main h argv w) =
          (case fst (run h l (initial w)) of Returned \<Rightarrow> 0 | Exit c \<Rightarrow> c | Rejected e \<Rightarrow> 1)"
       "execs (snd (main h argv w)) = execs (snd (run h l (initial w)))"
       "reports (snd (main h argv w)) = reports (snd (run h l (initial w)))"
       "summary (snd (main h argv w)) = summary (snd (run h l (initial w)))"
       "console (snd (main h argv w)) =
          console (snd (run h l (initial w))) @
          (case fst (run h l (initial w)) of Rejected e \<Rightarrow> [FatalError e] | _ \<Rightarrow> [])"
    by blast
  from l(2) assms(2) have t: "targetRepos l = Some names" by simp
  from assms(4) obtain repos where d: "fst (discoverRepos h l (initial w)) = Inr repos"
    using discoverRepos_readable [OF l(1), of "initial w"] by auto
  from discoverRepos_repos [OF d] have "\<forall>r\<in>set repos. known (name r)"
    by (auto intro: map_of_known)
  with assms(3) t have "select l repos = []"
    by (auto simp: select_def filter_empty_conv)
  from run_nothing [OF d this] l show ?thesis
    by simp
qed

text \<open>The run \<open>--repo=Unknown\<close> on \<open>tidy\<close>.\<close>

theorem no_known_request_witness:
  "fst (main tidy [''--repo=Unknown''] 0) = 0 \<and>
   execs (snd (main tidy [''--repo=Unknown''] 0)) = [] \<and>
   reports (snd (main tidy [''--repo=Unknown''] 0)) = [] \<and>
   summary (snd (main tidy [''--repo=Unknown''] 0)) = None \<and>
   last (console (snd (main tidy [''--repo=Unknown''] 0))) = Log Warn NoRepositoriesFound"
proof -
  have p: "parseTargetRepos [''--repo=Unknown''] = Inr (Some [''Unknown''])"
    by (simp add: parseTargetRepos_def)
  have k: "\<forall>n\<in>set [''Unknown'']. \<not> known n"
    by (simp add: known_def REPO_CONFIGS_def)
  have r: "readable tidy 0"
    by (simp add: readable_def tidy_def)
  have a: "\<not> (''--help'' \<in> set [''--repo=Unknown''] \<or> ''-h'' \<in> set [''--repo=Unknown''])"
    by simp
  from no_known_request [OF a p k r] show ?thesis .
qed

text \<open>
  That run prints three lines and no summary; and on \<open>broken\<close>, where the
  workspace cannot be enumerated, the same command line exits with code 1.
\<close>

theorem no_known_request_counterexample:
  "console (snd (main tidy [''--repo=Unknown''] 0)) =
     [Log Header Banner, Log Info (Mode False), Log Warn NoRepositoriesFound] \<and>
   summary (snd (main tidy [''--repo=Unknown''] 0)) = None \<and>
   fst (main broken [''--repo=Unknown''] 0) = 1"
  by (simp add: evaluation tidy_def broken_def demo_def)

section \<open>Arguments that the program does not look for\<close>

lemma find_filter:
  "(\<And>x. P x \<Longrightarrow> Q x) \<Longrightarrow> find P (filter Q xs) = find P xs"
  by (induction xs) auto

lemma parseTargetRepos_filter:
  "parseTargetRepos (filter recognized argv) = parseTargetRepos argv"
proof -
  have "find (prefix ''--repo='') (filter recognized argv) = find (prefix ''--repo='') argv"
    by (rule find_filter) (simp add: recognized_def)
  then show ?thesis by (simp add: parseTargetRepos_def)
qed

lemma PyrrhaLinter_filter:
  "PyrrhaLinter h (filter recognized argv) = PyrrhaLinter h argv"
  by (simp add: PyrrhaLinter_def parseTargetRepos_filter recognized_def split: sum.splits)

text \<open>
  C5. An argument outside the recognized set (\<open>--fix\<close>, \<open>--repo=...\<close>,
  \<open>--verbose\<close>, \<open>-v\<close>, \<open>--help\<close>, \<open>-h\<close>) is ignored: the program does,
  prints and returns what it would without it.
\<close>

theorem unrecognized_arguments_ignored:
  "main h argv w = main h (filter recognized argv) w"
  by (simp add: main_def PyrrhaLinter_filter recognized_def)

text \<open>The argument \<open>--bogus\<close> before \<open>--fix\<close> on \<open>tidy\<close>.\<close>

theorem unrecognized_arguments_ignored_witness:
  "\<not> recognized ''--bogus'' \<and> main tidy [''--bogus'', ''--fix''] 0 = main tidy [''--fix''] 0"
  using unrecognized_arguments_ignored [of tidy "[''--bogus'', ''--fix'']" 0]
  by (simp add: recognized_def)

text \<open>The run \<open>--bogus\<close> on \<open>tidy\<close>, where every script succeeds, exits with code 0.\<close>

theorem unknown_flag_counterexample:
  "\<not> recognized ''--bogus'' \<and> fst (main tidy [''--bogus''] 0) = 0"
  by (simp add: evaluation tidy_def recognized_def)

section \<open>What a script is called with\<close>

lemma main_execs:
  "\<forall>c\<in>set (execs (snd (main h argv w))).
     \<exists>r::repo. known (name r) \<and> path r = path_join (WORKSPACE_ROOT h) (name r) \<and>
       cwd c = path r \<and>
       env c = (process_env h)(''REPO_PATH'' \<mapsto> path r, ''REPO_NAME'' \<mapsto> name r,
                               ''TOOLS_ROOT'' \<mapsto> TOOLS_ROOT h) \<and>
       args c = (if ''--fix'' \<in> set argv then [''--fix''] else [])"
proof (cases "''--help'' \<in> set argv \<or> ''-h'' \<in> set argv")
  case True
  from main_help [OF True, of h w] have "execs (snd (main h argv w)) = []"
    by simp
  then show ?thesis
    by (simp only: list.set ball_empty)
next
  case False
  from main_run [OF False, of h w] obtain l where
    l: "workspaceRoot l = WORKSPACE_ROOT h" "toolsRoot l = TOOLS_ROOT h"
       "fixMode l = (''--fix'' \<in> set argv)"
       "execs (snd (main h argv w)) = execs (snd (run h l (initial w)))"
    by blast
  show ?thesis
  proof (cases "fst (discoverRepos h l (initial w))")
    case (Inl e)
    from run_rejected [OF Inl] l have "execs (snd (main h argv w)) = []"
      by simp
    then show ?thesis
      by (simp only: list.set ball_empty)
  next
    case (Inr repos)
    from discoverRepos_repos [OF Inr]
    have v: "\<forall>r\<in>set repos. known (name r) \<and> path r = path_join (workspaceRoot l) (name r)"
      by (auto intro: map_of_known)
    have sub: "set (select l repos) \<subseteq> set repos"
      by (auto simp: select_def split: option.splits)
    show ?thesis
    proof (cases "select l repos = []")
      case True
      from run_nothing [OF Inr True] l have "execs (snd (main h argv w)) = []"
        by simp
      then show ?thesis
        by (simp only: list.set ball_empty)
    next
      case False
      from run_lints [OF Inr False] obtain new where
        n: "execs (snd (run h l (initial w))) = execs (initial w) @ new"
           "\<forall>c\<in>set new. \<exists>r\<in>set (select l repos). issued h l r c"
        by blast
      show ?thesis
      proof
        fix c assume "c \<in> set (execs (snd (main h argv w)))"
        with n l(4) have "c \<in> set new" by simp
        with n(2) obtain r where r: "r \<in> set (select l repos)" "issued h l r c"
          by blast
        with sub v have "known (name r)" "path r = path_join (workspaceRoot l) (name r)"
          by auto
        with r(2) l have
          body: "known (name r) \<and> path r = path_join (WORKSPACE_ROOT h) (name r) \<and>
           cwd c = path r \<and>
           env c = (process_env h)(''REPO_PATH'' \<mapsto> path r, ''REPO_NAME'' \<mapsto> name r,
                                   ''TOOLS_ROOT'' \<mapsto> TOOLS_ROOT h) \<and>
           args c = (if ''--fix'' \<in> set argv then [''--fix''] else [])"
          by (simp add: issued_def)
        show "\<exists>r::repo. known (name r) \<and>
           path r = path_join (WORKSPACE_ROOT h) (name r) \<and>
           cwd c = path r \<and>
           env c = (process_env h)(''REPO_PATH'' \<mapsto> path r, ''REPO_NAME'' \<mapsto> name r,
                                   ''TOOLS_ROOT'' \<mapsto> TOOLS_ROOT h) \<and>
           args c = (if ''--fix'' \<in> set argv then [''--fix''] else [])"
          by (rule exI [of _ r], rule body)
      qed
    qed
  qed
qed

lemma runScript_calls:
  "\<exists>new. execs (snd (runScript h l s (path r) (name r) st)) = execs st @ new \<and>
         (\<forall>c\<in>set new. c = call_for h l r s)"
proof (cases "existsSync h (world st) (script_file l s)")
  case True
  have "execs (snd (runScript h l s (path r) (name r) st)) = execs st @ [call_for h l r s] \<and>
        (\<forall>c\<in>set [call_for h l r s]. c = call_for h l r s)"
    using runScript_present(2) [OF True, of r] by simp
  then show ?thesis by (rule exI)
next
  case False
  have "execs (snd (runScript h l s (path r) (name r) st)) = execs st @ [] \<and>
        (\<forall>c\<in>set []. c = call_for h l r s)"
    using runScript_missing [OF False, of "path r" "name r"] by simp
  then show ?thesis by (rule exI)
qed

lemma lintScripts_calls:
  "\<exists>new. execs (snd (lintScripts h l r ss results st)) = execs st @ new \<and>
         (\<forall>c\<in>set new. \<exists>s\<in>set ss. c = call_for h l r s)"
proof (induction ss arbitrary: results st)
  case Nil
  show ?case by simp
next
  case (Cons s ss)
  let ?ok = "fst (runScript h l s (path r) (name r) st)"
  let ?st1 = "snd (runScript h l s (path r) (name r) st)"
  from runScript_calls [of h l s r st] obtain new1 where
    n1: "execs ?st1 = execs st @ new1" "\<forall>c\<in>set new1. c = call_for h l r s"
    by blast
  from Cons.IH [of "results @ [(s, ?ok)]" ?st1] obtain new2 where
    n2: "execs (snd (lintScripts h l r ss (results @ [(s, ?ok)]) ?st1)) = execs ?st1 @ new2"
        "\<forall>c\<in>set new2. \<exists>s\<in>set ss. c = call_for h l r s"
    by blast
  have "execs (snd (lintScripts h l r (s # ss) results st)) = execs st @ (new1 @ new2) \<and>
        (\<forall>c\<in>set (new1 @ new2). \<exists>q\<in>set (s # ss). c = call_for h l r q)"
    using n1 n2 by (auto simp: case_prod_beta)
  then show ?case by (rule exI)
qed

lemma lintRepository_calls:
  "\<exists>new. execs (snd (lintRepository h l r st)) = execs st @ new \<and>
         (\<forall>c\<in>set new. \<exists>s\<in>set (scripts (config r)). c = call_for h l r s)"
  using lintScripts_calls [of h l r "scripts (config r)" "[]" "log Header (Linting (name r)) st"]
  by (simp add: lintRepository_def Let_def case_prod_beta)

lemma lintRepos_calls:
  "\<exists>new. execs (snd (lintRepos h l repos results st)) = execs st @ new \<and>
         (\<forall>c\<in>set new. \<exists>r\<in>set repos. \<exists>s\<in>set (scripts (config r)). c = call_for h l r s)"
proof (induction repos arbitrary: results st)
  case Nil
  show ?case by simp
next
  case (Cons r repos)
  let ?ok = "fst (lintRepository h l r st)"
  let ?st1 = "snd (lintRepository h l r st)"
  from lintRepository_calls [of h l r st] obtain new1 where
    n1: "execs ?st1 = execs st @ new1"
        "\<forall>c\<in>set new1. \<exists>s\<in>set (scripts (config r)). c = call_for h l r s"
    by blast
  from Cons.IH [of "results @ [(name r, ?ok)]" ?st1] obtain new2 where
    n2: "execs (snd (lintRepos h l repos (results @ [(name r, ?ok)]) ?st1)) = execs ?st1 @ new2"
        "\<forall>c\<in>set new2. \<exists>r\<in>set repos. \<exists>s\<in>set (scripts (config r)). c = call_for h l r s"
    by blast
  have "execs (snd (lintRepos h l (r # repos) results st)) = execs st @ (new1 @ new2) \<and>
        (\<forall>c\<in>set (new1 @ new2).
           \<exists>q\<in>set (r # repos). \<exists>s\<in>set (scripts (config q)). c = call_for h l q s)"
    using n1 n2 by (auto simp: case_prod_beta)
  then show ?case by (rule exI)
qed

lemma run_calls:
  assumes d: "fst (discoverRepos h l st) = Inr repos"
  shows "\<exists>new. execs (snd (run h l st)) = execs st @ new \<and>
           (\<forall>c\<in>set new. \<exists>r\<in>set (select l repos). \<exists>s\<in>set (scripts (config r)).
              c = call_for h l r s)"
proof (cases "select l repos = []")
  case True
  have "execs (snd (run h l st)) = execs st @ [] \<and>
        (\<forall>c\<in>set []. \<exists>r\<in>set (select l repos). \<exists>s\<in>set (scripts (config r)).
              c = call_for h l r s)"
    using run_nothing [OF d True] by simp
  then show ?thesis by (rule exI)
next
  case False
  let ?st1 = "log Info (Mode (fixMode l)) (log Header Banner st)"
  let ?t = "select l repos"
  have "fst (discoverRepos h l ?st1) = Inr repos"
    using d discoverRepos_fst [of ?st1 st h l] by simp
  then obtain st2 where d2: "discoverRepos h l ?st1 = (Inr repos, st2)"
    by (cases "discoverRepos h l ?st1") auto
  note fr = discoverRepos_frame [OF d2]
  let ?st4 = "foldl (\<lambda>s r. log Info (Bullet (name r) (rtype (config r))) s)
                (log Info (Found (length ?t)) st2) ?t"
  from lintRepos_calls [of h l ?t "[]" ?st4] obtain new where
    n: "execs (snd (lintRepos h l ?t [] ?st4)) = execs ?st4 @ new"
       "\<forall>c\<in>set new. \<exists>r\<in>set ?t. \<exists>s\<in>set (scripts (config r)). c = call_for h l r s"
    by blast
  have a: "execs (snd (run h l st)) = execs st @ new"
    using False d2 n(1) fr by (simp add: run_def Let_def case_prod_beta)
  from a n(2) have "execs (snd (run h l st)) = execs st @ new \<and>
           (\<forall>c\<in>set new. \<exists>r\<in>set (select l repos). \<exists>s\<in>set (scripts (config r)).
              c = call_for h l r s)"
    by (rule conjI)
  then show ?thesis by (rule exI)
qed

lemma scripts_of_config: "map_of REPO_CONFIGS n = Some c \<Longrightarrow> scripts_of n = scripts c"
  by (simp add: scripts_of_def)

lemma main_calls:
  "\<forall>c\<in>set (execs (snd (main h argv w))).
     \<exists>n s. known n \<and> n \<in> set (map fst (reports (snd (main h argv w)))) \<and>
       s \<in> set (scripts_of n) \<and>
       scriptPath c = path_join (path_join (TOOLS_ROOT h) ''scripts'') s \<and>
       cwd c = path_join (WORKSPACE_ROOT h) n \<and>
       env c = (process_env h)(''REPO_PATH'' \<mapsto> path_join (WORKSPACE_ROOT h) n,
                               ''REPO_NAME'' \<mapsto> n,
                               ''TOOLS_ROOT'' \<mapsto> TOOLS_ROOT h) \<and>
       args c = (if ''--fix'' \<in> set argv then [''--fix''] else [])"
proof (cases "''--help'' \<in> set argv \<or> ''-h'' \<in> set argv")
  case True
  from main_help [OF True, of h w] have "execs (snd (main h argv w)) = []"
    by simp
  then show ?thesis
    by (simp only: list.set ball_empty)
next
  case False
  from main_run [OF False, of h w] obtain l where
    l: "workspaceRoot l = WORKSPACE_ROOT h" "toolsRoot l = TOOLS_ROOT h"
       "fixMode l = (''--fix'' \<in> set argv)"
       "execs (snd (main h argv w)) = execs (snd (run h l (initial w)))"
       "reports (snd (main h argv w)) = reports (snd (run h l (initial w)))"
    by blast
  show ?thesis
  proof (cases "fst (discoverRepos h l (initial w))")
    case (Inl e)
    from run_rejected [OF Inl] l have "execs (snd (main h argv w)) = []"
      by simp
    then show ?thesis
      by (simp only: list.set ball_empty)
  next
    case (Inr repos)
    from discoverRepos_repos [OF Inr]
    have v: "\<forall>r\<in>set repos. known (name r) \<and> path r = path_join (workspaceRoot l) (name r) \<and>
               scripts_of (name r) = scripts (config r)"
      by (auto intro: map_of_known scripts_of_config)
    have sub: "set (select l repos) \<subseteq> set repos"
      by (auto simp: select_def split: option.splits)
    from run_not_rejected [OF Inr] obtain rps where
      "reports (snd (run h l (initial w))) = reports (initial w) @ rps"
      "map fst rps = map name (select l repos)"
      by blast
    with l(5) have names: "map fst (reports (snd (main h argv w))) = map name (select l repos)"
      by simp
    from run_calls [OF Inr] obtain new where
      n: "execs (snd (run h l (initial w))) = execs (initial w) @ new"
         "\<forall>c\<in>set new. \<exists>r\<in>set (select l repos). \<exists>s\<in>set (scripts (config r)).
            c = call_for h l r s"
      by blast
    show ?thesis
    proof
      fix c assume "c \<in> set (execs (snd (main h argv w)))"
      with n l(4) have "c \<in> set new" by simp
      with n(2) obtain r s where
        r: "r \<in> set (select l repos)" "s \<in> set (scripts (config r))" "c = call_for h l r s"
        by blast
      from r(1) sub v have k: "known (name r)" "path r = path_join (workspaceRoot l) (name r)"
        "scripts_of (name r) = scripts (config r)"
        by auto
      from r(1) names have li: "name r \<in> set (map fst (reports (snd (main h argv w))))"
        by simp
      have body: "known (name r) \<and> name r \<in> set (map fst (reports (snd (main h argv w)))) \<and>
         s \<in> set (scripts_of (name r)) \<and>
         scriptPath c = path_join (path_join (TOOLS_ROOT h) ''scripts'') s \<and>
         cwd c = path_join (WORKSPACE_ROOT h) (name r) \<and>
         env c = (process_env h)(''REPO_PATH'' \<mapsto> path_join (WORKSPACE_ROOT h) (name r),
                               ''REPO_NAME'' \<mapsto> name r,
                               ''TOOLS_ROOT'' \<mapsto> TOOLS_ROOT h) \<and>
         args c = (if ''--fix'' \<in> set argv then [''--fix''] else [])"
        using k li r(2,3) l(1,2,3) by (simp add: call_for_def script_file_def)
      show "\<exists>n s. known n \<and> n \<in> set (map fst (reports (snd (main h argv w)))) \<and>
         s \<in> set (scripts_of n) \<and>
         scriptPath c = path_join (path_join (TOOLS_ROOT h) ''scripts'') s \<and>
         cwd c = path_join (WORKSPACE_ROOT h) n \<and>
         env c = (process_env h)(''REPO_PATH'' \<mapsto> path_join (WORKSPACE_ROOT h) n,
                               ''REPO_NAME'' \<mapsto> n,
                               ''TOOLS_ROOT'' \<mapsto> TOOLS_ROOT h) \<and>
         args c = (if ''--fix'' \<in> set argv then [''--fix''] else [])"
        by (rule exI [of _ "name r"], rule exI [of _ s], rule body)
    qed
  qed
qed

lemma attempts_stable:
  assumes "\<And>w p. existsSync h w p = P p"
  shows "attempts h w cs = filter (\<lambda>c. P (scriptPath c)) cs"
  by (induction cs arbitrary: w) (simp_all add: assms)

lemma planned_keys:
  assumes "\<forall>r\<in>set T. path r = path_join R (name r) \<and> scripts_of (name r) = scripts (config r)"
  shows "map (\<lambda>c. (env c ''REPO_NAME'', env c ''REPO_PATH'', scriptPath c))
           (concat (map (\<lambda>r. map (call_for h l r) (filter E (scripts (config r)))) T)) =
         concat (map (\<lambda>n. map (\<lambda>s. (Some n, Some (path_join R n), script_file l s))
                             (filter E (scripts_of n)))
                   (map name T))"
  using assms
proof (induction T)
  case Nil
  show ?case by simp
next
  case (Cons r T)
  then show ?case
    by (simp add: call_for_def comp_def)
qed

lemma main_sequence:
  assumes st: "\<forall>w' p. existsSync h w' p = existsSync h w p"
  shows "map (\<lambda>c. (env c ''REPO_NAME'', env c ''REPO_PATH'', scriptPath c))
           (execs (snd (main h argv w))) =
         concat (map (\<lambda>n. map (\<lambda>s. (Some n, Some (path_join (WORKSPACE_ROOT h) n),
                                      path_join (path_join (TOOLS_ROOT h) ''scripts'') s))
                             (filter (\<lambda>s. existsSync h w
                                        (path_join (path_join (TOOLS_ROOT h) ''scripts'') s))
                                (scripts_of n)))
                   (map fst (reports (snd (main h argv w)))))"
proof (cases "''--help'' \<in> set argv \<or> ''-h'' \<in> set argv")
  case True
  from main_help [OF True, of h w] show ?thesis
    by simp
next
  case False
  from main_run [OF False, of h w] obtain l where
    l: "workspaceRoot l = WORKSPACE_ROOT h" "toolsRoot l = TOOLS_ROOT h"
       "execs (snd (main h argv w)) = execs (snd (run h l (initial w)))"
       "reports (snd (main h argv w)) = reports (snd (run h l (initial w)))"
    by blast
  show ?thesis
  proof (cases "fst (discoverRepos h l (initial w))")
    case (Inl e)
    from run_rejected [OF Inl] l show ?thesis
      by simp
  next
    case (Inr repos)
    let ?T = "select l repos"
    let ?E = "\<lambda>s. existsSync h w (script_file l s)"
    from discoverRepos_repos [OF Inr]
    have v: "\<forall>r\<in>set repos. path r = path_join (WORKSPACE_ROOT h) (name r) \<and>
               scripts_of (name r) = scripts (config r)"
      by (auto simp: l(1) intro: scripts_of_config)
    have sub: "set ?T \<subseteq> set repos"
      by (auto simp: select_def split: option.splits)
    from v sub have vt: "\<forall>r\<in>set ?T. path r = path_join (WORKSPACE_ROOT h) (name r) \<and>
               scripts_of (name r) = scripts (config r)"
      by blast
    have ex: "\<And>w' p. existsSync h w' p = existsSync h w p"
      using st by simp
    have at: "attempts h w (scheduled h l ?T) =
        filter (\<lambda>c. existsSync h w (scriptPath c)) (scheduled h l ?T)"
      by (rule attempts_stable [OF ex])
    have fl: "filter (\<lambda>c. existsSync h w (scriptPath c)) (scheduled h l ?T) =
        concat (map (\<lambda>r. map (call_for h l r) (filter ?E (scripts (config r)))) ?T)"
      by (simp add: scheduled_def filter_concat filter_map comp_def)
    from run_trace [OF Inr] obtain rps where
      e0: "execs (snd (run h l (initial w))) =
             execs (initial w) @ attempts h (world (initial w)) (scheduled h l ?T)"
      and r: "reports (snd (run h l (initial w))) = reports (initial w) @ rps"
             "map fst rps = map name ?T"
      by blast
    have e: "execs (snd (run h l (initial w))) =
            concat (map (\<lambda>r. map (call_for h l r) (filter ?E (scripts (config r)))) ?T)"
      using e0 at fl by simp
    have names: "map fst (reports (snd (main h argv w))) = map name ?T"
      using r l(4) by simp
    show ?thesis
      unfolding names l(3) e planned_keys [OF vt]
      by (simp add: script_file_def l(2))
  qed
qed

text \<open>
  C6. Every \<open>execSync\<close> call of a run is made for a repository that the run
  lints and for a script of that repository's list: its working directory is the
  repository, and its environment is the one of the process with \<open>REPO_PATH\<close>
  set to the path of that repository, \<open>REPO_NAME\<close> to its name and
  \<open>TOOLS_ROOT\<close> to the tools root. The mode is not among the variables: it is
  the argument list of the call, \<open>--fix\<close> in fix mode and empty in check mode.
  When the script files neither appear nor disappear during the run, the names,
  paths and scripts of the calls are, in order, those of the linted repositories
  and of the scripts of each that have a file. And every call that
  \<open>lintRepository\<close> makes for a repository has the path and the name of that
  repository.
\<close>

theorem invocation_environment:
  "(\<forall>c\<in>set (execs (snd (main h argv w))).
      \<exists>n s. known n \<and> n \<in> set (map fst (reports (snd (main h argv w)))) \<and>
        s \<in> set (scripts_of n) \<and>
        scriptPath c = path_join (path_join (TOOLS_ROOT h) ''scripts'') s \<and>
        cwd c = path_join (WORKSPACE_ROOT h) n \<and>
        env c = (process_env h)(''REPO_PATH'' \<mapsto> path_join (WORKSPACE_ROOT h) n,
                                ''REPO_NAME'' \<mapsto> n,
                                ''TOOLS_ROOT'' \<mapsto> TOOLS_ROOT h) \<and>
        args c = (if ''--fix'' \<in> set argv then [''--fix''] else [])) \<and>
   ((\<forall>w' p. existsSync h w' p = existsSync h w p) \<longrightarrow>
      map (\<lambda>c. (env c ''REPO_NAME'', env c ''REPO_PATH'', scriptPath c))
        (execs (snd (main h argv w))) =
      concat (map (\<lambda>n. map (\<lambda>s. (Some n, Some (path_join (WORKSPACE_ROOT h) n),
                                   path_join (path_join (TOOLS_ROOT h) ''scripts'') s))
                          (filter (\<lambda>s. existsSync h w
                                     (path_join (path_join (TOOLS_ROOT h) ''scripts'') s))
                             (scripts_of n)))
                (map fst (reports (snd (main h argv w)))))) \<and>
   (\<forall>c\<in>set (drop (length (execs st)) (execs (snd (lintRepository h l r st)))).
      cwd c = path r \<and>
      env c = (process_env h)(''REPO_PATH'' \<mapsto> path r, ''REPO_NAME'' \<mapsto> name r,
                              ''TOOLS_ROOT'' \<mapsto> toolsRoot l) \<and>
      args c = (if fixMode l then [''--fix''] else []))"
proof (intro conjI impI)
  show "\<forall>c\<in>set (execs (snd (main h argv w))).
      \<exists>n s. known n \<and> n \<in> set (map fst (reports (snd (main h argv w)))) \<and>
        s \<in> set (scripts_of n) \<and>
        scriptPath c = path_join (path_join (TOOLS_ROOT h) ''scripts'') s \<and>
        cwd c = path_join (WORKSPACE_ROOT h) n \<and>
        env c = (process_env h)(''REPO_PATH'' \<mapsto> path_join (WORKSPACE_ROOT h) n,
                                ''REPO_NAME'' \<mapsto> n,
                                ''TOOLS_ROOT'' \<mapsto> TOOLS_ROOT h) \<and>
        args c = (if ''--fix'' \<in> set argv then [''--fix''] else [])"
    by (rule main_calls)
next
  assume "\<forall>w' p. existsSync h w' p = existsSync h w p"
  then show "map (\<lambda>c. (env c ''REPO_NAME'', env c ''REPO_PATH'', scriptPath c))
        (execs (snd (main h argv w))) =
      concat (map (\<lambda>n. map (\<lambda>s. (Some n, Some (path_join (WORKSPACE_ROOT h) n),
                                   path_join (path_join (TOOLS_ROOT h) ''scripts'') s))
                          (filter (\<lambda>s. existsSync h w
                                     (path_join (path_join (TOOLS_ROOT h) ''scripts'') s))
                             (scripts_of n)))
                (map fst (reports (snd (main h argv w)))))"
    by (rule main_sequence)
next
  from lintRepository_calls [of h l r st] obtain new where
    n: "execs (snd (lintRepository h l r st)) = execs st @ new"
       "\<forall>c\<in>set new. \<exists>s\<in>set (scripts (config r)). c = call_for h l r s"
    by blast
  show "\<forall>c\<in>set (drop (length (execs st)) (execs (snd (lintRepository h l r st)))).
      cwd c = path r \<and>
      env c = (process_env h)(''REPO_PATH'' \<mapsto> path r, ''REPO_NAME'' \<mapsto> name r,
                              ''TOOLS_ROOT'' \<mapsto> toolsRoot l) \<and>
      args c = (if fixMode l then [''--fix''] else [])"
  proof
    fix c assume "c \<in> set (drop (length (execs st)) (execs (snd (lintRepository h l r st))))"
    with n(1) have "c \<in> set new" by simp
    with n(2) obtain s where "c = call_for h l r s" by blast
    then show "cwd c = path r \<and>
      env c = (process_env h)(''REPO_PATH'' \<mapsto> path r, ''REPO_NAME'' \<mapsto> name r,
                              ''TOOLS_ROOT'' \<mapsto> toolsRoot l) \<and>
      args c = (if fixMode l then [''--fix''] else [])"
      by (simp add: call_for_def)
  qed
qed

text \<open>
  The run \<open>--fix\<close> on \<open>mishap\<close>: one call for \<open>Pyrrha-Rules-Decision\<close> and
  one for \<open>Pyrrha-Dashboard\<close>, each with its own name and path, the first with the
  argument \<open>--fix\<close>.
\<close>

theorem invocation_environment_witness:
  "map (\<lambda>c. (env c ''REPO_NAME'', env c ''REPO_PATH'', scriptPath c))
     (execs (snd (main mishap [''--fix''] 0))) =
     [(Some ''Pyrrha-Rules-Decision'', Some ''/w/Pyrrha-Rules-Decision'',
       ''/t/scripts/lint-python.sh''),
      (Some ''Pyrrha-Dashboard'', Some ''/w/Pyrrha-Dashboard'',
       ''/t/scripts/lint-dashboard.sh'')] \<and>
   execs (snd (main mishap [''--fix''] 0)) \<noteq> [] \<and>
   args (hd (execs (snd (main mishap [''--fix''] 0)))) = [''--fix'']"
proof -
  let ?X = "snd (main mishap [''--fix''] 0)"
  have names: "map fst (reports ?X) =
     [''Pyrrha-MQTT-Client'', ''Pyrrha-Rules-Decision'', ''Pyrrha-Dashboard'']"
    by (simp add: evaluation mishap_def)
  have s: "\<forall>w' p. existsSync mishap w' p = existsSync mishap 0 p"
    by (simp add: mishap_def)
  note t = invocation_environment [of mishap "[''--fix'']" 0 "initial 0" checker mobile]
  from t s have "map (\<lambda>c. (env c ''REPO_NAME'', env c ''REPO_PATH'', scriptPath c)) (execs ?X) =
      concat (map (\<lambda>n. map (\<lambda>s. (Some n, Some (path_join (WORKSPACE_ROOT mishap) n),
                                   path_join (path_join (TOOLS_ROOT mishap) ''scripts'') s))
                          (filter (\<lambda>s. existsSync mishap 0
                                     (path_join (path_join (TOOLS_ROOT mishap) ''scripts'') s))
                             (scripts_of n)))
                (map fst (reports ?X)))"
    by blast
  then have one: "map (\<lambda>c. (env c ''REPO_NAME'', env c ''REPO_PATH'', scriptPath c)) (execs ?X) =
     [(Some ''Pyrrha-Rules-Decision'', Some ''/w/Pyrrha-Rules-Decision'',
       ''/t/scripts/lint-python.sh''),
      (Some ''Pyrrha-Dashboard'', Some ''/w/Pyrrha-Dashboard'',
       ''/t/scripts/lint-dashboard.sh'')]"
    unfolding names
    by (simp add: scripts_of_def REPO_CONFIGS_def path_join_def mishap_def)
  then have ne: "execs ?X \<noteq> []"
    by auto
  then have "hd (execs ?X) \<in> set (execs ?X)"
    by (rule hd_in_set)
  with t have "args (hd (execs ?X)) = (if ''--fix'' \<in> set [''--fix''] then [''--fix''] else [])"
    by blast
  then have three: "args (hd (execs ?X)) = [''--fix'']"
    by simp
  from one ne three show ?thesis
    by (intro conjI)
qed

text \<open>
  On \<open>tidy\<close>, whose process environment is empty, the environment of the call has
  these three variables and no other, in fix mode as in check mode; the two runs
  differ in the arguments.
\<close>

theorem invocation_environment_counterexample:
  "map env_names (execs (snd (main tidy [''--fix''] 0))) =
     [{''TOOLS_ROOT'', ''REPO_NAME'', ''REPO_PATH''}] \<and>
   map env_names (execs (snd (main tidy [] 0))) =
     [{''TOOLS_ROOT'', ''REPO_NAME'', ''REPO_PATH''}] \<and>
   map args (execs (snd (main tidy [''--fix''] 0))) = [[''--fix'']] \<and>
   map args (execs (snd (main tidy [] 0))) = [[]]"
  by (simp add: evaluation tidy_def env_names_def)

text \<open>
  C9. In one run every script is called with the same argument list, fixed by the
  command line: \<open>--fix\<close> if \<open>--fix\<close> is among the arguments of the program, and
  nothing otherwise.
\<close>

theorem fix_mode_uniform:
  "\<forall>c\<in>set (execs (snd (main h argv w))).
     args c = (if ''--fix'' \<in> set argv then [''--fix''] else [])"
proof
  fix c assume c: "c \<in> set (execs (snd (main h argv w)))"
  have "\<exists>r::repo. known (name r) \<and> path r = path_join (WORKSPACE_ROOT h) (name r) \<and>
       cwd c = path r \<and>
       env c = (process_env h)(''REPO_PATH'' \<mapsto> path r, ''REPO_NAME'' \<mapsto> name r,
                               ''TOOLS_ROOT'' \<mapsto> TOOLS_ROOT h) \<and>
       args c = (if ''--fix'' \<in> set argv then [''--fix''] else [])"
    using main_execs [of h argv w] c by (rule bspec)
  then show "args c = (if ''--fix'' \<in> set argv then [''--fix''] else [])"
    by (elim exE conjE)
qed

text \<open>The call made by the run \<open>--fix\<close> on \<open>tidy\<close> has the argument \<open>--fix\<close>.\<close>

theorem fix_mode_uniform_witness:
  "execs (snd (main tidy [''--fix''] 0)) \<noteq> [] \<and>
   args (hd (execs (snd (main tidy [''--fix''] 0)))) = [''--fix'']"
proof -
  have ne: "execs (snd (main tidy [''--fix''] 0)) \<noteq> []"
    by (simp add: evaluation tidy_def)
  then have "hd (execs (snd (main tidy [''--fix''] 0))) \<in> set (execs (snd (main tidy [''--fix''] 0)))"
    by (rule hd_in_set)
  from fix_mode_uniform [of tidy "[''--fix'']" 0, THEN bspec, OF this] ne
  show ?thesis by simp
qed

section \<open>Failing scripts\<close>

lemma runScript_success:
  "fst (runScript h l s p n st) \<longleftrightarrow>
     existsSync h (world st) (path_join (path_join (toolsRoot l) ''scripts'') s) \<and>
     (\<exists>output. fst (execSync h (world st)
        \<lparr>scriptPath = path_join (path_join (toolsRoot l) ''scripts'') s,
         args = (if fixMode l then [''--fix''] else []),
         cwd = p,
         env = (process_env h)(''REPO_PATH'' \<mapsto> p, ''REPO_NAME'' \<mapsto> n,
                               ''TOOLS_ROOT'' \<mapsto> toolsRoot l),
         inherit = verbose l\<rparr>) = Returns output)"
  by (simp add: runScript_def Let_def split: prod.splits exec_result.splits)

lemma attempts_all:
  "\<forall>w. \<forall>c\<in>set cs. existsSync h w (scriptPath c) \<Longrightarrow> attempts h w cs = cs"
  by (induction cs arbitrary: w) simp_all

lemma all_succeeded_flat:
  "all_succeeded rps = list_all (\<lambda>b. b) (map snd (concat (map snd rps)))"
  by (induction rps) (auto simp: all_succeeded_def list_all_iff)

text \<open>
  C7. \<open>runScript\<close> returns a boolean in every case: \<open>True\<close> exactly when the
  script file exists and \<open>execSync\<close> returns, \<open>False\<close> when the file is missing
  or \<open>execSync\<close> throws. Once the workspace has been enumerated, no outcome of
  any script makes \<open>run\<close> end with an exception or stop early: it goes through
  every script of every targeted repository, in order. The commands it runs are
  exactly the attempts over that schedule, so a script is run whenever its file
  is there when its turn comes, whatever the scripts before it did; the results
  recorded, one for every script of every targeted repository, are exactly the
  verdicts over the schedule, so a missing file and a throwing \<open>execSync\<close> are
  recorded as failures; \<open>run\<close> returns if all verdicts are successes and exits
  with code 1 otherwise. In particular, when the script files are there, every
  scheduled command is run.
\<close>

theorem failures_are_results:
  "(fst (runScript h l s p n st) \<longleftrightarrow>
      existsSync h (world st) (path_join (path_join (toolsRoot l) ''scripts'') s) \<and>
      (\<exists>output. fst (execSync h (world st)
         \<lparr>scriptPath = path_join (path_join (toolsRoot l) ''scripts'') s,
          args = (if fixMode l then [''--fix''] else []),
          cwd = p,
          env = (process_env h)(''REPO_PATH'' \<mapsto> p, ''REPO_NAME'' \<mapsto> n,
                                ''TOOLS_ROOT'' \<mapsto> toolsRoot l),
          inherit = verbose l\<rparr>) = Returns output)) \<and>
   (fst (discoverRepos h l st) = Inr repos \<longrightarrow>
      (fst (run h l st) = Returned \<or> fst (run h l st) = Exit 1) \<and>
      (\<exists>rps. reports (snd (run h l st)) = reports st @ rps \<and>
         map fst rps = map name (select l repos) \<and>
         list_all2 (\<lambda>r rp. map fst (snd rp) = scripts (config r)) (select l repos) rps \<and>
         map snd (concat (map snd rps)) =
           verdicts h (world st) (scheduled h l (select l repos))) \<and>
      execs (snd (run h l st)) =
        execs st @ attempts h (world st) (scheduled h l (select l repos)) \<and>
      fst (run h l st) =
        (if list_all (\<lambda>b. b) (verdicts h (world st) (scheduled h l (select l repos)))
         then Returned else Exit 1) \<and>
      ((\<forall>w. \<forall>c\<in>set (scheduled h l (select l repos)). existsSync h w (scriptPath c)) \<longrightarrow>
         execs (snd (run h l st)) = execs st @ scheduled h l (select l repos)))"
proof (intro conjI impI)
  show "fst (runScript h l s p n st) \<longleftrightarrow>
      existsSync h (world st) (path_join (path_join (toolsRoot l) ''scripts'') s) \<and>
      (\<exists>output. fst (execSync h (world st)
         \<lparr>scriptPath = path_join (path_join (toolsRoot l) ''scripts'') s,
          args = (if fixMode l then [''--fix''] else []),
          cwd = p,
          env = (process_env h)(''REPO_PATH'' \<mapsto> p, ''REPO_NAME'' \<mapsto> n,
                                ''TOOLS_ROOT'' \<mapsto> toolsRoot l),
          inherit = verbose l\<rparr>) = Returns output)"
    by (rule runScript_success)
next
  assume d: "fst (discoverRepos h l st) = Inr repos"
  from run_not_rejected [OF d]
  show "fst (run h l st) = Returned \<or> fst (run h l st) = Exit 1"
    by (rule conjunct1)
  from run_trace [OF d] obtain rps where
    e: "execs (snd (run h l st)) =
          execs st @ attempts h (world st) (scheduled h l (select l repos))"
    and r: "reports (snd (run h l st)) = reports st @ rps"
       "map fst rps = map name (select l repos)"
       "list_all2 (\<lambda>r rp. map fst (snd rp) = scripts (config r)) (select l repos) rps"
       "map snd (concat (map snd rps)) =
          verdicts h (world st) (scheduled h l (select l repos))"
       "fst (run h l st) = (if all_succeeded rps then Returned else Exit 1)"
    by blast
  show "\<exists>rps. reports (snd (run h l st)) = reports st @ rps \<and>
         map fst rps = map name (select l repos) \<and>
         list_all2 (\<lambda>r rp. map fst (snd rp) = scripts (config r)) (select l repos) rps \<and>
         map snd (concat (map snd rps)) =
           verdicts h (world st) (scheduled h l (select l repos))"
    by (rule exI [of _ rps], intro conjI, rule r(1), rule r(2), rule r(3), rule r(4))
  show "execs (snd (run h l st)) =
        execs st @ attempts h (world st) (scheduled h l (select l repos))"
    by (rule e)
  show "fst (run h l st) =
        (if list_all (\<lambda>b. b) (verdicts h (world st) (scheduled h l (select l repos)))
         then Returned else Exit 1)"
    using r(5) r(4) by (simp add: all_succeeded_flat)
  assume "\<forall>w. \<forall>c\<in>set (scheduled h l (select l repos)). existsSync h w (scriptPath c)"
  then have "attempts h (world st) (scheduled h l (select l repos)) =
               scheduled h l (select l repos)"
    by (rule attempts_all)
  with e show "execs (snd (run h l st)) = execs st @ scheduled h l (select l repos)"
    by simp
qed

lemma from_nothing: "\<exists>rps. xs = [] @ rps \<and> Q rps \<Longrightarrow> Q xs"
  by auto

text \<open>
  On \<open>mishap\<close> the script of the first repository has no file and the script
  of the second one fails: the second and the third are still run, all three
  repositories are reported with the results failed, failed, passed, and the run
  exits with code 1.
\<close>

theorem failures_are_results_witness:
  "\<not> fst (runScript mishap checker ''lint-nodejs.sh'' ''/w/Pyrrha-MQTT-Client''
           ''Pyrrha-MQTT-Client'' (initial 0)) \<and>
   map scriptPath (execs (snd (run mishap checker (initial 0)))) =
     [''/t/scripts/lint-python.sh'', ''/t/scripts/lint-dashboard.sh''] \<and>
   map cwd (execs (snd (run mishap checker (initial 0)))) =
     [''/w/Pyrrha-Rules-Decision'', ''/w/Pyrrha-Dashboard''] \<and>
   map fst (reports (snd (run mishap checker (initial 0)))) =
     [''Pyrrha-MQTT-Client'', ''Pyrrha-Rules-Decision'', ''Pyrrha-Dashboard''] \<and>
   map snd (concat (map snd (reports (snd (run mishap checker (initial 0)))))) =
     [False, False, True] \<and>
   fst (run mishap checker (initial 0)) = Exit 1"
proof -
  let ?mqtt = "\<lparr>name = ''Pyrrha-MQTT-Client'', path = ''/w/Pyrrha-MQTT-Client'',
                config = \<lparr>rtype = ''nodejs'', languages = [''javascript''],
                  hasReact = False, hasFlask = False, hasNodeAuth = False, hasArduino = False,
                  scripts = [''lint-nodejs.sh'']\<rparr>\<rparr>"
  let ?rules = "\<lparr>name = ''Pyrrha-Rules-Decision'', path = ''/w/Pyrrha-Rules-Decision'',
                 config = \<lparr>rtype = ''python'', languages = [''python''],
                   hasReact = False, hasFlask = False, hasNodeAuth = False, hasArduino = False,
                   scripts = [''lint-python.sh'']\<rparr>\<rparr>"
  let ?dash = "\<lparr>name = ''Pyrrha-Dashboard'', path = ''/w/Pyrrha-Dashboard'',
                config = \<lparr>rtype = ''multi-stack'', languages = [''javascript'', ''python''],
                  hasReact = True, hasFlask = True, hasNodeAuth = True, hasArduino = False,
                  scripts = [''lint-dashboard.sh'']\<rparr>\<rparr>"
  let ?X = "snd (run mishap checker (initial 0))"
  have d: "fst (discoverRepos mishap checker (initial 0)) = Inr [?mqtt, ?rules, ?dash]"
    by (simp add: evaluation mishap_def checker_def)
  have sel: "select checker [?mqtt, ?rules, ?dash] = [?mqtt, ?rules, ?dash]"
    by (simp add: select_def checker_def)
  have sch: "scheduled mishap checker [?mqtt, ?rules, ?dash] =
      [call_for mishap checker ?mqtt ''lint-nodejs.sh'',
       call_for mishap checker ?rules ''lint-python.sh'',
       call_for mishap checker ?dash ''lint-dashboard.sh'']"
    by (simp add: scheduled_def)
  have at: "attempts mishap 0
      [call_for mishap checker ?mqtt ''lint-nodejs.sh'',
       call_for mishap checker ?rules ''lint-python.sh'',
       call_for mishap checker ?dash ''lint-dashboard.sh''] =
      [call_for mishap checker ?rules ''lint-python.sh'',
       call_for mishap checker ?dash ''lint-dashboard.sh'']"
    by (simp add: script_file_def path_join_def mishap_def checker_def)
  have ve: "verdicts mishap 0
      [call_for mishap checker ?mqtt ''lint-nodejs.sh'',
       call_for mishap checker ?rules ''lint-python.sh'',
       call_for mishap checker ?dash ''lint-dashboard.sh''] = [False, False, True]"
    by (simp add: script_file_def path_join_def mishap_def checker_def)
  have e: "\<not> existsSync mishap (world (initial 0 :: nat state))
      (path_join (path_join (toolsRoot checker) ''scripts'') ''lint-nodejs.sh'')"
    by (simp add: mishap_def checker_def path_join_def)
  note t = failures_are_results [of mishap checker "''lint-nodejs.sh''" "''/w/Pyrrha-MQTT-Client''"
      "''Pyrrha-MQTT-Client''" "initial 0" "[?mqtt, ?rules, ?dash]"]
  note c1 = t [THEN conjunct1]
  note c2 = t [THEN conjunct2, rule_format, OF d]
  note c2b = c2 [THEN conjunct2, THEN conjunct1, unfolded initial_fields sel sch ve]
  note c2c = c2 [THEN conjunct2, THEN conjunct2, THEN conjunct1,
                 unfolded initial_fields sel sch at]
  note c2d = c2 [THEN conjunct2, THEN conjunct2, THEN conjunct2, THEN conjunct1,
                 unfolded initial_fields sel sch ve]
  from c1 e have one: "\<not> fst (runScript mishap checker ''lint-nodejs.sh'' ''/w/Pyrrha-MQTT-Client''
           ''Pyrrha-MQTT-Client'' (initial 0))"
    by simp
  from c2c have ex2: "execs ?X =
      [call_for mishap checker ?rules ''lint-python.sh'',
       call_for mishap checker ?dash ''lint-dashboard.sh'']"
    by simp
  from c2d have six: "fst (run mishap checker (initial 0)) = Exit 1"
    by simp
  note r = c2b [THEN from_nothing]
  from r [THEN conjunct1] have names: "map fst (reports ?X) =
     [''Pyrrha-MQTT-Client'', ''Pyrrha-Rules-Decision'', ''Pyrrha-Dashboard'']"
    by simp
  from r [THEN conjunct2, THEN conjunct2]
  have five: "map snd (concat (map snd (reports ?X))) = [False, False, True]" .
  have two: "map scriptPath (execs ?X) =
     [''/t/scripts/lint-python.sh'', ''/t/scripts/lint-dashboard.sh'']"
    unfolding ex2 by (simp add: script_file_def path_join_def checker_def)
  have three: "map cwd (execs ?X) = [''/w/Pyrrha-Rules-Decision'', ''/w/Pyrrha-Dashboard'']"
    unfolding ex2 by (simp add: call_for_def)
  from one two three names five six show ?thesis
    by (intro conjI)
qed

section \<open>The script lists of the known repositories\<close>

lemma known_names:
  "known n \<longleftrightarrow> n \<in> {''Pyrrha-Dashboard'', ''Pyrrha-MQTT-Client'', ''Pyrrha-Rules-Decision'',
     ''Pyrrha-WebSocket-Server'', ''Pyrrha-Device-Simulator'', ''Pyrrha-Website'',
     ''Pyrrha-Firmware'', ''Pyrrha-Mobile-App'', ''Pyrrha-Watch-App''}"
  by (simp add: known_def REPO_CONFIGS_def)

lemma lintRepository_empty:
  "scripts (config r) = [] \<Longrightarrow>
     lintRepository h l r st =
       (True, (log Success (Status True (name r)) (log Header (Linting (name r)) st))
                \<lparr>reports := reports st @ [(name r, [])]\<rparr>)"
  by (simp add: lintRepository_def)

text \<open>
  C8. Every known name has an entry in \<open>REPO_CONFIGS\<close>, and its script list is
  empty if and only if the name is \<open>Pyrrha-Mobile-App\<close>. Linting a repository
  with an empty list returns \<open>True\<close> (passed) after printing the header and the
  status line, records no result and runs no command.
\<close>

theorem dispatch_table_lists:
  "(known n \<longrightarrow>
      (\<exists>c. map_of REPO_CONFIGS n = Some c \<and> (scripts c = [] \<longleftrightarrow> n = ''Pyrrha-Mobile-App''))) \<and>
   (scripts (config r) = [] \<longrightarrow>
      lintRepository h l r st =
        (True, (log Success (Status True (name r)) (log Header (Linting (name r)) st))
                 \<lparr>reports := reports st @ [(name r, [])]\<rparr>) \<and>
      execs (snd (lintRepository h l r st)) = execs st)"
proof (intro conjI impI)
  assume "known n"
  then have "n \<in> {''Pyrrha-Dashboard'', ''Pyrrha-MQTT-Client'', ''Pyrrha-Rules-Decision'',
     ''Pyrrha-WebSocket-Server'', ''Pyrrha-Device-Simulator'', ''Pyrrha-Website'',
     ''Pyrrha-Firmware'', ''Pyrrha-Mobile-App'', ''Pyrrha-Watch-App''}"
    by (simp only: known_names)
  then show "\<exists>c. map_of REPO_CONFIGS n = Some c \<and> (scripts c = [] \<longleftrightarrow> n = ''Pyrrha-Mobile-App'')"
    by (auto simp: REPO_CONFIGS_def)
next
  assume e: "scripts (config r) = []"
  from lintRepository_empty [OF e]
  show "lintRepository h l r st =
        (True, (log Success (Status True (name r)) (log Header (Linting (name r)) st))
                 \<lparr>reports := reports st @ [(name r, [])]\<rparr>)" .
  from lintRepository_empty [OF e, of h l st]
  show "execs (snd (lintRepository h l r st)) = execs st"
    by simp
qed

text \<open>The entry of \<open>Pyrrha-Mobile-App\<close>, and linting it on \<open>demo\<close>.\<close>

theorem dispatch_table_lists_witness:
  "known ''Pyrrha-Mobile-App'' \<and>
   (\<exists>c. map_of REPO_CONFIGS ''Pyrrha-Mobile-App'' = Some c \<and> scripts c = []) \<and>
   scripts (config mobile) = [] \<and>
   fst (lintRepository demo checker mobile (initial 0)) = True \<and>
   execs (snd (lintRepository demo checker mobile (initial 0))) = []"
proof -
  have k: "known ''Pyrrha-Mobile-App''" by (simp add: known_names)
  have e: "scripts (config mobile) = []" by (simp add: mobile_def)
  from dispatch_table_lists [of "''Pyrrha-Mobile-App''" mobile demo checker "initial 0"] k e
  show ?thesis by simp
qed

section \<open>Which repositories are linted\<close>

lemma subseq_distinct: "subseq xs ys \<Longrightarrow> distinct ys \<Longrightarrow> distinct xs"
  by (induction rule: list_emb.induct) (auto dest: list_emb_set)

lemma subseq_member: "subseq xs ys \<Longrightarrow> x \<in> set xs \<Longrightarrow> x \<in> set ys"
  by (induction rule: list_emb.induct) auto

lemma select_subseq: "subseq (map name (select l repos)) (map name repos)"
  by (auto simp: select_def intro: subseq_map split: option.splits)

lemma main_reports:
  "(\<forall>rp\<in>set (reports (snd (main h argv w))).
      known (fst rp) \<and> prefix ''Pyrrha-'' (fst rp) \<and> fst rp \<noteq> ''Pyrrha-Development-Tools'' \<and>
      isDirectory h w (path_join (WORKSPACE_ROOT h) (fst rp)) = Some True) \<and>
   (\<exists>items. (reports (snd (main h argv w)) \<noteq> [] \<longrightarrow>
              readdirSync h w (WORKSPACE_ROOT h) = Some items) \<and>
            subseq (map fst (reports (snd (main h argv w)))) items) \<and>
   (reports (snd (main h argv w)) \<noteq> [] \<longrightarrow>
      (\<exists>sm. summary (snd (main h argv w)) = Some sm \<and>
            map fst sm = map fst (reports (snd (main h argv w)))))"
proof (cases "''--help'' \<in> set argv \<or> ''-h'' \<in> set argv")
  case True
  from main_help [OF True, of h w] have "reports (snd (main h argv w)) = []"
    by simp
  then show ?thesis by simp
next
  case False
  from main_run [OF False, of h w] obtain l where
    l: "workspaceRoot l = WORKSPACE_ROOT h"
       "reports (snd (main h argv w)) = reports (snd (run h l (initial w)))"
       "summary (snd (main h argv w)) = summary (snd (run h l (initial w)))"
    by blast
  show ?thesis
  proof (cases "fst (discoverRepos h l (initial w))")
    case (Inl e)
    from run_rejected [OF Inl] l have "reports (snd (main h argv w)) = []"
      by simp
    then show ?thesis by simp
  next
    case (Inr repos)
    from discoverRepos_repos [OF Inr] l(1) obtain items where
      i: "readdirSync h w (WORKSPACE_ROOT h) = Some items"
         "subseq (map name repos) items"
      and v: "\<forall>r\<in>set repos.
              path r = path_join (WORKSPACE_ROOT h) (name r) \<and>
              isDirectory h w (path r) = Some True \<and>
              prefix ''Pyrrha-'' (name r) \<and> name r \<noteq> ''Pyrrha-Development-Tools'' \<and>
              map_of REPO_CONFIGS (name r) = Some (config r)"
      by auto
    show ?thesis
    proof (cases "select l repos = []")
      case True
      from run_nothing [OF Inr True] l have "reports (snd (main h argv w)) = []"
        by simp
      then show ?thesis by simp
    next
      case False
      from run_lints [OF Inr False] obtain rps where
        r: "reports (snd (run h l (initial w))) = reports (initial w) @ rps"
           "map fst rps = map name (select l repos)"
           "summary (snd (run h l (initial w))) =
              Some (map (\<lambda>rp. (fst rp, list_all snd (snd rp))) rps)"
        by blast
      have names: "map fst (reports (snd (main h argv w))) = map name (select l repos)"
        using r l by simp
      have sub: "set (select l repos) \<subseteq> set repos"
        by (auto simp: select_def split: option.splits)
      have a: "\<forall>rp\<in>set (reports (snd (main h argv w))).
          known (fst rp) \<and> prefix ''Pyrrha-'' (fst rp) \<and> fst rp \<noteq> ''Pyrrha-Development-Tools'' \<and>
          isDirectory h w (path_join (WORKSPACE_ROOT h) (fst rp)) = Some True"
      proof
        fix rp assume "rp \<in> set (reports (snd (main h argv w)))"
        then have "fst rp \<in> set (map fst (reports (snd (main h argv w))))"
          by simp
        with names obtain q where q: "q \<in> set (select l repos)" "fst rp = name q"
          by auto
        with sub have "q \<in> set repos" by blast
        with v have
          "path q = path_join (WORKSPACE_ROOT h) (name q)"
          "isDirectory h w (path q) = Some True"
          "prefix ''Pyrrha-'' (name q)" "name q \<noteq> ''Pyrrha-Development-Tools''"
          "map_of REPO_CONFIGS (name q) = Some (config q)"
          by blast+
        with q(2) show "known (fst rp) \<and> prefix ''Pyrrha-'' (fst rp) \<and>
          fst rp \<noteq> ''Pyrrha-Development-Tools'' \<and>
          isDirectory h w (path_join (WORKSPACE_ROOT h) (fst rp)) = Some True"
          by (simp add: map_of_known)
      qed
      have "subseq (map fst (reports (snd (main h argv w)))) items"
        using names select_subseq [of l repos] i(2)
        by (metis subseq_order.trans)
      with i(1) have b: "\<exists>items. (reports (snd (main h argv w)) \<noteq> [] \<longrightarrow>
              readdirSync h w (WORKSPACE_ROOT h) = Some items) \<and>
            subseq (map fst (reports (snd (main h argv w)))) items"
        by blast
      have c: "\<exists>sm. summary (snd (main h argv w)) = Some sm \<and>
            map fst sm = map fst (reports (snd (main h argv w)))"
        using r l by (simp add: comp_def)
      from a b c show ?thesis by blast
    qed
  qed
qed

text \<open>
  C10. Every repository that a run lints has a known name that starts with
  \<open>Pyrrha-\<close>, is not \<open>Pyrrha-Development-Tools\<close>, is an entry of the workspace
  listing and is a directory, whatever was requested on the command line. When
  repositories were linted, the summary has one entry for each of them, in the
  same order; and no name is linted twice when the listing has no duplicates.
\<close>

theorem linted_repositories:
  "(\<forall>rp\<in>set (reports (snd (main h argv w))).
      known (fst rp) \<and> prefix ''Pyrrha-'' (fst rp) \<and> fst rp \<noteq> ''Pyrrha-Development-Tools'' \<and>
      (\<exists>items. readdirSync h w (WORKSPACE_ROOT h) = Some items \<and> fst rp \<in> set items) \<and>
      isDirectory h w (path_join (WORKSPACE_ROOT h) (fst rp)) = Some True) \<and>
   (reports (snd (main h argv w)) \<noteq> [] \<longrightarrow>
      (\<exists>sm. summary (snd (main h argv w)) = Some sm \<and>
            map fst sm = map fst (reports (snd (main h argv w))))) \<and>
   (\<forall>items. readdirSync h w (WORKSPACE_ROOT h) = Some items \<longrightarrow> distinct items \<longrightarrow>
      distinct (map fst (reports (snd (main h argv w)))))"
proof -
  let ?reports = "reports (snd (main h argv w))"
  from main_reports [of h argv w] obtain items where
    a: "\<forall>rp\<in>set ?reports.
          known (fst rp) \<and> prefix ''Pyrrha-'' (fst rp) \<and> fst rp \<noteq> ''Pyrrha-Development-Tools'' \<and>
          isDirectory h w (path_join (WORKSPACE_ROOT h) (fst rp)) = Some True"
    and b: "?reports \<noteq> [] \<longrightarrow> readdirSync h w (WORKSPACE_ROOT h) = Some items"
           "subseq (map fst ?reports) items"
    and c: "?reports \<noteq> [] \<longrightarrow>
      (\<exists>sm. summary (snd (main h argv w)) = Some sm \<and> map fst sm = map fst ?reports)"
    by blast
  have one: "\<forall>rp\<in>set ?reports.
      known (fst rp) \<and> prefix ''Pyrrha-'' (fst rp) \<and> fst rp \<noteq> ''Pyrrha-Development-Tools'' \<and>
      (\<exists>items. readdirSync h w (WORKSPACE_ROOT h) = Some items \<and> fst rp \<in> set items) \<and>
      isDirectory h w (path_join (WORKSPACE_ROOT h) (fst rp)) = Some True"
  proof
    fix rp assume rp: "rp \<in> set ?reports"
    then have "?reports \<noteq> []" by auto
    with b(1) have r: "readdirSync h w (WORKSPACE_ROOT h) = Some items" by simp
    from rp have "fst rp \<in> set (map fst ?reports)" by simp
    with b(2) have "fst rp \<in> set items"
      by (rule subseq_member)
    with r have "\<exists>items. readdirSync h w (WORKSPACE_ROOT h) = Some items \<and> fst rp \<in> set items"
      by simp
    with a rp show "known (fst rp) \<and> prefix ''Pyrrha-'' (fst rp) \<and>
      fst rp \<noteq> ''Pyrrha-Development-Tools'' \<and>
      (\<exists>items. readdirSync h w (WORKSPACE_ROOT h) = Some items \<and> fst rp \<in> set items) \<and>
      isDirectory h w (path_join (WORKSPACE_ROOT h) (fst rp)) = Some True"
      by simp
  qed
  have three: "\<forall>items. readdirSync h w (WORKSPACE_ROOT h) = Some items \<longrightarrow> distinct items \<longrightarrow>
      distinct (map fst ?reports)"
  proof (intro allI impI)
    fix items' assume r: "readdirSync h w (WORKSPACE_ROOT h) = Some items'" and d: "distinct items'"
    show "distinct (map fst ?reports)"
    proof (cases "?reports = []")
      case True
      then show ?thesis by simp
    next
      case False
      with b(1) r have "items = items'" by simp
      with b(2) d show ?thesis
        by (auto intro: subseq_distinct)
    qed
  qed
  from one c three show ?thesis by (intro conjI)
qed

text \<open>
  On \<open>demo\<close>, requesting the tools, the plain file, the unconfigured directory and
  \<open>Pyrrha-Mobile-App\<close> lints the last one only.
\<close>

theorem linted_repositories_witness:
  "map fst (reports (snd (main demo
      [''--repo=Pyrrha-Development-Tools,README.md,Pyrrha-Sandbox,Pyrrha-Mobile-App''] 0))) =
     [''Pyrrha-Mobile-App''] \<and>
   (\<exists>sm. summary (snd (main demo
      [''--repo=Pyrrha-Development-Tools,README.md,Pyrrha-Sandbox,Pyrrha-Mobile-App''] 0)) = Some sm \<and>
      map fst sm = [''Pyrrha-Mobile-App''])"
proof -
  let ?argv = "[''--repo=Pyrrha-Development-Tools,README.md,Pyrrha-Sandbox,Pyrrha-Mobile-App'']"
  have e: "map fst (reports (snd (main demo ?argv 0))) = [''Pyrrha-Mobile-App'']"
    by (simp add: evaluation demo_def)
  then have "reports (snd (main demo ?argv 0)) \<noteq> []"
    by auto
  with linted_repositories [of demo ?argv 0] e show ?thesis
    by simp
qed

end
